theory Spec2Isabelle
  imports Complex_Main "HOL-Library.Signed_Division"
begin

section \<open>The Legion stencil kernel (LEGION/Stencil/stencil.cc)\<close>

text \<open>
  A shallow embedding of the partitioning, placement and validation code of
  \<^verbatim>\<open>stencil.cc\<close>. The C++ types \<^verbatim>\<open>int\<close> and \<^verbatim>\<open>coord_t\<close> are modelled by
  mathematical integers: signed overflow is undefined behaviour in C++, so the model
  agrees with the program wherever the program's arithmetic is defined. The C++
  operators \<^verbatim>\<open>/\<close> and \<^verbatim>\<open>%\<close> truncate towards zero and are modelled by \<open>sdiv\<close> and
  \<open>smod\<close>; a division by zero, an index outside a task's region vector and a failing
  \<^verbatim>\<open>assert\<close> are results of their own. \<^verbatim>\<open>RADIUS\<close> is a macro of the build and a
  parameter of every definition that uses it.
\<close>

datatype error =
    ExitFailure
  | AssertionFailure
  | DivisionByZero
  | OutOfRange

subsection \<open>Rectangles\<close>

text \<open>\<^verbatim>\<open>Rect<2>\<close>: the inclusive corners \<^verbatim>\<open>lo[0], lo[1]\<close> and \<^verbatim>\<open>hi[0], hi[1]\<close>.\<close>

record rect =
  lo0 :: int
  lo1 :: int
  hi0 :: int
  hi1 :: int

definition in_rect :: "rect \<Rightarrow> int \<times> int \<Rightarrow> bool" where
  "in_rect r p = (lo0 r \<le> fst p \<and> fst p \<le> hi0 r \<and> lo1 r \<le> snd p \<and> snd p \<le> hi1 r)"

definition points :: "rect \<Rightarrow> (int \<times> int) set" where
  "points r = {p. in_rect r p}"

subsection \<open>Enumerations\<close>

text \<open>
  \<^verbatim>\<open>enum GhostDirection\<close> and \<^verbatim>\<open>enum Boundary\<close>. The program computes with the
  enumerators (\<^verbatim>\<open>dir / 2\<close>, \<^verbatim>\<open>dir % 2\<close>), so they are numbers here too.
\<close>

definition GHOST_LEFT :: nat where "GHOST_LEFT = 0"
definition GHOST_UP :: nat where "GHOST_UP = 1"
definition GHOST_RIGHT :: nat where "GHOST_RIGHT = 2"
definition GHOST_DOWN :: nat where "GHOST_DOWN = 3"
definition PRIVATE :: nat where "PRIVATE = 4"

definition LEFT :: nat where "LEFT = 0"
definition LEFT_UP :: nat where "LEFT_UP = 1"
definition UP :: nat where "UP = 2"
definition UP_RIGHT :: nat where "UP_RIGHT = 3"
definition RIGHT :: nat where "RIGHT = 4"
definition RIGHT_DOWN :: nat where "RIGHT_DOWN = 5"
definition DOWN :: nat where "DOWN = 6"
definition DOWN_LEFT :: nat where "DOWN_LEFT = 7"
definition INTERIOR :: nat where "INTERIOR = 8"

lemmas ghost_defs = GHOST_LEFT_def GHOST_UP_def GHOST_RIGHT_def GHOST_DOWN_def PRIVATE_def

lemmas boundary_defs =
  LEFT_def LEFT_UP_def UP_def UP_RIGHT_def RIGHT_def RIGHT_DOWN_def DOWN_def DOWN_LEFT_def
  INTERIOR_def

datatype field_id = FID_IN | FID_OUT | FID_WEIGHT

datatype privilege = READ_ONLY | READ_WRITE

subsection \<open>The halo-extended tiles of \<^verbatim>\<open>top_level_task\<close>\<close>

text \<open>
  Lines 428 to 448: \<^verbatim>\<open>tileSizeX = n / Num_procsx\<close>, \<^verbatim>\<open>tileSizeY = n / Num_procsy\<close>, and
  for every \<^verbatim>\<open>tileY\<close>, \<^verbatim>\<open>tileX\<close> the rectangle stored in \<^verbatim>\<open>haloColoring\<close>.
\<close>

definition tileDomain :: "int \<Rightarrow> int \<Rightarrow> int \<Rightarrow> int \<Rightarrow> int \<Rightarrow> int \<Rightarrow> rect" where
  "tileDomain n RADIUS tileSizeX tileSizeY tileX tileY =
     \<lparr> lo0 = max (tileX * tileSizeX - RADIUS) 0,
       lo1 = max (tileY * tileSizeY - RADIUS) 0,
       hi0 = min ((tileX + 1) * tileSizeX + RADIUS) n - 1,
       hi1 = min ((tileY + 1) * tileSizeY + RADIUS) n - 1 \<rparr>"

definition haloColoring_row ::
  "int \<Rightarrow> int \<Rightarrow> int \<Rightarrow> int \<Rightarrow> int \<Rightarrow> int \<Rightarrow>
   (int \<times> int \<rightharpoonup> rect) \<Rightarrow> (int \<times> int \<rightharpoonup> rect)" where
  "haloColoring_row n RADIUS Num_procsx tileSizeX tileSizeY tileY coloring =
     fold (\<lambda>tileX c. c((tileX, tileY) \<mapsto> tileDomain n RADIUS tileSizeX tileSizeY tileX tileY))
       [0 .. Num_procsx - 1] coloring"

definition haloColoring :: "int \<Rightarrow> int \<Rightarrow> int \<Rightarrow> int \<Rightarrow> (int \<times> int \<rightharpoonup> rect)" where
  "haloColoring n RADIUS Num_procsx Num_procsy =
     (let tileSizeX = n sdiv Num_procsx; tileSizeY = n sdiv Num_procsy in
      fold (haloColoring_row n RADIUS Num_procsx tileSizeX tileSizeY)
        [0 .. Num_procsy - 1] Map.empty)"

subsection \<open>The boundary launch of \<^verbatim>\<open>spmd_task\<close>\<close>

text \<open>
  Lines 1019 to 1043: for every \<^verbatim>\<open>dir\<close> from \<^verbatim>\<open>LEFT\<close> to \<^verbatim>\<open>DOWN_LEFT\<close> with
  \<^verbatim>\<open>hasBoundary[dir]\<close>, a task launcher receives, in this order, the sector as output,
  the weights, the ghost regions \<^verbatim>\<open>ghostLrs[(dir / 2 + idx) % 4]\<close> for
  \<^verbatim>\<open>idx = 0 .. dir % 2\<close>, and the private region.
\<close>

datatype region_name =
    BoundaryLr nat
  | WeightLr
  | GhostLr nat
  | PrivateLr

record requirement =
  req_region :: region_name
  req_privilege :: privilege
  req_field :: field_id

definition ghost_requirements :: "nat \<Rightarrow> requirement list" where
  "ghost_requirements dir =
     map (\<lambda>idx. \<lparr> req_region = GhostLr ((dir div 2 + idx) mod 4),
                  req_privilege = READ_ONLY, req_field = FID_IN \<rparr>)
       [0 ..< Suc (dir mod 2)]"

definition boundaryLauncher :: "nat \<Rightarrow> requirement list" where
  "boundaryLauncher dir =
     [\<lparr> req_region = BoundaryLr dir, req_privilege = READ_WRITE, req_field = FID_OUT \<rparr>,
      \<lparr> req_region = WeightLr, req_privilege = READ_ONLY, req_field = FID_WEIGHT \<rparr>]
     @ ghost_requirements dir
     @ [\<lparr> req_region = PrivateLr, req_privilege = READ_ONLY, req_field = FID_IN \<rparr>]"

definition boundary_launches :: "bool list \<Rightarrow> (nat \<times> requirement list) list" where
  "boundary_launches hasBoundary =
     map (\<lambda>dir. (dir, boundaryLauncher dir))
       (filter (\<lambda>dir. hasBoundary ! dir) [LEFT ..< Suc DOWN_LEFT])"

text \<open>The ghost directions a launcher reads: its \<^verbatim>\<open>FID_IN\<close> inputs on ghost regions.\<close>

definition ghost_inputs :: "requirement list \<Rightarrow> nat list" where
  "ghost_inputs reqs =
     concat (map (\<lambda>q. case req_region q of GhostLr g \<Rightarrow> [g] | _ \<Rightarrow> []) reqs)"

definition reads_private :: "requirement list \<Rightarrow> bool" where
  "reads_private reqs =
     (\<lparr> req_region = PrivateLr, req_privilege = READ_ONLY, req_field = FID_IN \<rparr> \<in> set reqs)"

subsection \<open>The partitions of \<^verbatim>\<open>spmd_task\<close>\<close>

text \<open>
  A \<^verbatim>\<open>DomainPointColoring\<close> over the colours \<open>0 .. k\<close> is a list indexed by colour.
  \<^verbatim>\<open>coloring[colors[color]];\<close> enters the default (empty) domain for every colour:
  \<open>None\<close> here. An assignment \<^verbatim>\<open>coloring[colors[c]] = Domain::from_rect<2>(r)\<close> stores
  \<open>Some r\<close>.
\<close>

type_synonym coloring = "rect option list"

definition domain_points :: "rect option \<Rightarrow> (int \<times> int) set" where
  "domain_points d = (case d of None \<Rightarrow> {} | Some r \<Rightarrow> points r)"

text \<open>
  The loop over the two axes in \<^verbatim>\<open>createHaloPartition\<close> (lines 619 to 623) and in
  \<^verbatim>\<open>createBoundaryPartition\<close> (lines 691 to 695): a side that is not on the global
  boundary moves inwards by \<^verbatim>\<open>RADIUS\<close>.
\<close>

definition shrink :: "int \<Rightarrow> int \<Rightarrow> rect \<Rightarrow> rect" where
  "shrink n RADIUS b =
     \<lparr> lo0 = (if lo0 b \<noteq> 0 then lo0 b + RADIUS else lo0 b),
       lo1 = (if lo1 b \<noteq> 0 then lo1 b + RADIUS else lo1 b),
       hi0 = (if hi0 b \<noteq> n - 1 then hi0 b - RADIUS else hi0 b),
       hi1 = (if hi1 b \<noteq> n - 1 then hi1 b - RADIUS else hi1 b) \<rparr>"

definition createHaloPartition :: "rect \<Rightarrow> int \<Rightarrow> int \<Rightarrow> coloring" where
  "createHaloPartition haloBox n RADIUS =
     (let boundingBox = shrink n RADIUS haloBox;
          coloring = replicate 5 None;
          coloring =
            (if lo0 boundingBox > 0
             then coloring[GHOST_LEFT := Some
                    \<lparr> lo0 = lo0 haloBox, lo1 = lo1 boundingBox,
                      hi0 = lo0 boundingBox - 1, hi1 = hi1 boundingBox \<rparr>]
             else coloring);
          coloring =
            (if lo1 boundingBox > 0
             then coloring[GHOST_UP := Some
                    \<lparr> lo0 = lo0 boundingBox, lo1 = lo1 haloBox,
                      hi0 = hi0 boundingBox, hi1 = lo1 boundingBox - 1 \<rparr>]
             else coloring);
          coloring =
            (if hi0 boundingBox < n - 1
             then coloring[GHOST_RIGHT := Some
                    \<lparr> lo0 = hi0 boundingBox + 1, lo1 = lo1 boundingBox,
                      hi0 = hi0 haloBox, hi1 = hi1 boundingBox \<rparr>]
             else coloring);
          coloring =
            (if hi1 boundingBox < n - 1
             then coloring[GHOST_DOWN := Some
                    \<lparr> lo0 = lo0 boundingBox, lo1 = hi1 boundingBox + 1,
                      hi0 = hi0 boundingBox, hi1 = hi1 haloBox \<rparr>]
             else coloring)
      in coloring[PRIVATE := Some boundingBox])"

text \<open>
  \<^verbatim>\<open>createBoundaryPartition\<close> (lines 671 to 787) fills the colouring and sets
  \<^verbatim>\<open>hasBoundary[dir]\<close> for every perimeter sector it creates.
\<close>

definition set_boundary ::
  "nat \<Rightarrow> rect \<Rightarrow> coloring \<times> bool list \<Rightarrow> coloring \<times> bool list" where
  "set_boundary dir r s = ((fst s)[dir := Some r], (snd s)[dir := True])"

definition createBoundaryPartition ::
  "rect \<Rightarrow> int \<Rightarrow> int \<Rightarrow> bool list \<Rightarrow> coloring \<times> bool list" where
  "createBoundaryPartition boundingBox n RADIUS hasBoundary =
     (let interiorBox = shrink n RADIUS boundingBox;
          s = (replicate 9 None, hasBoundary);
          s =
            (if lo0 interiorBox > 0 then
               (let s = set_boundary LEFT
                      \<lparr> lo0 = lo0 boundingBox, lo1 = lo1 interiorBox,
                        hi0 = lo0 interiorBox - 1, hi1 = hi1 interiorBox \<rparr> s
                in if lo1 interiorBox > 0
                   then set_boundary LEFT_UP
                      \<lparr> lo0 = lo0 boundingBox, lo1 = lo1 boundingBox,
                        hi0 = lo0 interiorBox - 1, hi1 = lo1 interiorBox - 1 \<rparr> s
                   else s)
             else s);
          s =
            (if lo1 interiorBox > 0 then
               (let s = set_boundary UP
                      \<lparr> lo0 = lo0 interiorBox, lo1 = lo1 boundingBox,
                        hi0 = hi0 interiorBox, hi1 = lo1 interiorBox - 1 \<rparr> s
                in if hi0 interiorBox < n - 1
                   then set_boundary UP_RIGHT
                      \<lparr> lo0 = hi0 interiorBox + 1, lo1 = lo1 boundingBox,
                        hi0 = hi0 boundingBox, hi1 = lo1 interiorBox - 1 \<rparr> s
                   else s)
             else s);
          s =
            (if hi0 interiorBox < n - 1 then
               (let s = set_boundary RIGHT
                      \<lparr> lo0 = hi0 interiorBox + 1, lo1 = lo1 interiorBox,
                        hi0 = hi0 boundingBox, hi1 = hi1 interiorBox \<rparr> s
                in if hi1 interiorBox < n - 1
                   then set_boundary RIGHT_DOWN
                      \<lparr> lo0 = hi0 interiorBox + 1, lo1 = hi1 interiorBox + 1,
                        hi0 = hi0 boundingBox, hi1 = hi1 boundingBox \<rparr> s
                   else s)
             else s);
          s =
            (if hi1 interiorBox < n - 1 then
               (let s = set_boundary DOWN
                      \<lparr> lo0 = lo0 interiorBox, lo1 = hi1 interiorBox + 1,
                        hi0 = hi0 interiorBox, hi1 = hi1 boundingBox \<rparr> s
                in if lo0 interiorBox > 0
                   then set_boundary DOWN_LEFT
                      \<lparr> lo0 = lo0 boundingBox, lo1 = hi1 interiorBox + 1,
                        hi0 = lo0 interiorBox - 1, hi1 = hi1 boundingBox \<rparr> s
                   else s)
             else s)
      in ((fst s)[INTERIOR := Some interiorBox], snd s))"

text \<open>
  The private region of a tile, as \<^verbatim>\<open>spmd_task\<close> obtains it (lines 838 to 857): the
  colour \<^verbatim>\<open>PRIVATE\<close> of the halo partition of the tile's halo-extended box; and its
  boundary partition, from \<^verbatim>\<open>hasBoundary(9, false)\<close>.
\<close>

definition privateBox :: "int \<Rightarrow> int \<Rightarrow> int \<Rightarrow> int \<Rightarrow> int \<Rightarrow> int \<Rightarrow> rect" where
  "privateBox n RADIUS Num_procsx Num_procsy tileX tileY =
     shrink n RADIUS
       (tileDomain n RADIUS (n sdiv Num_procsx) (n sdiv Num_procsy) tileX tileY)"

definition tile_sectors ::
  "int \<Rightarrow> int \<Rightarrow> int \<Rightarrow> int \<Rightarrow> int \<Rightarrow> int \<Rightarrow> coloring \<times> bool list" where
  "tile_sectors n RADIUS Num_procsx Num_procsy tileX tileY =
     createBoundaryPartition (privateBox n RADIUS Num_procsx Num_procsy tileX tileY)
       n RADIUS (replicate 9 False)"

text \<open>
  A sector exists when the program treats it as present: a perimeter sector when
  \<^verbatim>\<open>hasBoundary[dir]\<close> is set (only then is its boundary task launched), and the
  interior sector always.
\<close>

definition sector_exists :: "coloring \<times> bool list \<Rightarrow> nat \<Rightarrow> bool" where
  "sector_exists s dir = (dir = INTERIOR \<or> (dir \<le> DOWN_LEFT \<and> snd s ! dir))"

definition sector_points :: "coloring \<times> bool list \<Rightarrow> nat \<Rightarrow> (int \<times> int) set" where
  "sector_points s dir = domain_points (fst s ! dir)"

text \<open>
  \<^verbatim>\<open>createBalancedPartition\<close> (lines 789 to 828). The loop over the colours carries
  \<^verbatim>\<open>startY\<close>; each of its two assertions aborts the program when it fails. The
  result lists the rectangle of every colour, in the order of the colours.
\<close>

fun balanced_loop :: "rect \<Rightarrow> int \<Rightarrow> int \<Rightarrow> int list \<Rightarrow> int \<Rightarrow> error + rect list" where
  "balanced_loop r offY remainder [] startY = Inr []"
| "balanced_loop r offY remainder (color # colors) startY =
     (let widthY = (if color < remainder then offY + 1 else offY) in
      if \<not> startY < hi1 r then Inl AssertionFailure
      else if \<not> startY + widthY - 1 \<le> hi1 r then Inl AssertionFailure
      else
        (case balanced_loop r offY remainder colors (startY + widthY) of
           Inl e \<Rightarrow> Inl e
         | Inr blocks \<Rightarrow>
             Inr (\<lparr> lo0 = lo0 r, lo1 = startY, hi0 = hi0 r, hi1 = startY + widthY - 1 \<rparr>
                  # blocks)))"

definition createBalancedPartition :: "rect \<Rightarrow> int \<Rightarrow> error + rect list" where
  "createBalancedPartition r numThreads =
     (if numThreads = 0 then Inl DivisionByZero
      else
        (let sizeY = hi1 r - lo1 r + 1;
             offY = sizeY sdiv numThreads;
             remainder = sizeY smod numThreads
         in balanced_loop r offY remainder [0 .. numThreads - 1] (lo1 r)))"

definition widthY :: "rect \<Rightarrow> int" where
  "widthY b = hi1 b - lo1 b + 1"

subsection \<open>The command line of \<^verbatim>\<open>top_level_task\<close>\<close>

text \<open>
  The C library's \<^verbatim>\<open>atoi\<close>: white space is skipped, one sign is read, then the
  decimal digits up to the first other character; a string with no digits gives \<open>0\<close>.
  (A value outside \<^verbatim>\<open>int\<close> is undefined behaviour and not modelled.)
\<close>

definition isspace :: "char \<Rightarrow> bool" where
  "isspace c = (c \<in> set [CHR '' '', CHR 0x09, CHR 0x0A, CHR 0x0B, CHR 0x0C, CHR 0x0D])"

definition isdigit :: "char \<Rightarrow> bool" where
  "isdigit c = ((48::nat) \<le> of_char c \<and> of_char c \<le> (57::nat))"

definition digit_value :: "char \<Rightarrow> int" where
  "digit_value c = int (of_char c) - 48"

fun atoi_digits :: "int \<Rightarrow> string \<Rightarrow> int" where
  "atoi_digits acc [] = acc"
| "atoi_digits acc (c # cs) =
     (if isdigit c then atoi_digits (10 * acc + digit_value c) cs else acc)"

definition atoi :: "string \<Rightarrow> int" where
  "atoi s =
     (case dropWhile isspace s of
        [] \<Rightarrow> 0
      | c # cs \<Rightarrow>
          if c = CHR ''-'' then - atoi_digits 0 cs
          else if c = CHR ''+'' then atoi_digits 0 cs
          else atoi_digits 0 (c # cs))"

text \<open>
  Lines 356 to 358. \<^verbatim>\<open>inputs.argv[4][0]\<close> of an empty argument is the terminating
  NUL, which is no digit. \<open>'0'\<close> is the character \<open>48\<close> and \<open>'9'\<close> the character \<open>57\<close>.
\<close>

definition starts_with_digit :: "string \<Rightarrow> bool" where
  "starts_with_digit s = (case s of [] \<Rightarrow> False | c # cs \<Rightarrow> isdigit c)"

definition num_numa_nodes :: "string list \<Rightarrow> int" where
  "num_numa_nodes argv =
     (if length argv > 4 \<and> starts_with_digit (argv ! 4) then atoi (argv ! 4) else 1)"

text \<open>
  Lines 377 to 385: \<^verbatim>\<open>Num_procsx\<close> runs down from \<^verbatim>\<open>(int) sqrt(num_ranks + 1)\<close> to the
  first divisor of \<^verbatim>\<open>num_ranks\<close>; \<^verbatim>\<open>Num_procsy\<close> starts as \<open>0\<close>. \<open>isqrt\<close> is the integer
  part of the square root.
\<close>

fun isqrt :: "nat \<Rightarrow> nat" where
  "isqrt 0 = 0"
| "isqrt (Suc n) = (let r = isqrt n in if Suc r * Suc r \<le> Suc n then Suc r else r)"

fun procs_loop :: "int \<Rightarrow> nat \<Rightarrow> int \<times> int" where
  "procs_loop num_ranks 0 = (0, 0)"
| "procs_loop num_ranks (Suc k) =
     (if num_ranks smod int (Suc k) = 0
      then (int (Suc k), num_ranks sdiv int (Suc k))
      else procs_loop num_ranks k)"

definition processor_grid :: "int \<Rightarrow> int \<times> int" where
  "processor_grid num_ranks = procs_loop num_ranks (isqrt (nat (num_ranks + 1)))"

record config =
  threads :: int
  iterations :: int
  grid_size :: int
  Num_procsx :: int
  Num_procsy :: int

text \<open>
  Lines 326 to 410. \<^verbatim>\<open>exit(EXIT_FAILURE)\<close> is the result \<open>Inl ExitFailure\<close>; a remainder
  by a zero tile-grid factor is \<open>Inl DivisionByZero\<close>. \<open>gasnet_nodes\<close> is what
  \<^verbatim>\<open>gasnet_nodes()\<close> returns.
\<close>

definition read_and_test_input :: "string list \<Rightarrow> int \<Rightarrow> int \<Rightarrow> error + config" where
  "read_and_test_input argv gasnet_nodes RADIUS =
     (if length argv < 4 then Inl ExitFailure
      else if atoi (argv ! 1) \<le> 0 then Inl ExitFailure
      else if atoi (argv ! 2) < 1 then Inl ExitFailure
      else if atoi (argv ! 3) \<le> 0 then Inl ExitFailure
      else
        (let n = atoi (argv ! 3);
             num_ranks = gasnet_nodes * num_numa_nodes argv;
             grid = processor_grid num_ranks
         in if fst grid = 0 then Inl DivisionByZero
            else if n smod fst grid \<noteq> 0 then Inl ExitFailure
            else if snd grid = 0 then Inl DivisionByZero
            else if n smod snd grid \<noteq> 0 then Inl ExitFailure
            else if RADIUS < 1 then Inl ExitFailure
            else if 2 * RADIUS + 1 > n then Inl ExitFailure
            else Inr \<lparr> threads = atoi (argv ! 1), iterations = atoi (argv ! 2),
                       grid_size = n, Num_procsx = fst grid, Num_procsy = snd grid \<rparr>))"

subsection \<open>Validation\<close>

text \<open>
  \<^verbatim>\<open>DTYPE\<close> is a type parameter \<open>'a\<close> with the operations the program uses; the cast
  \<^verbatim>\<open>(DTYPE) numIterations\<close> and the macro \<^verbatim>\<open>ABS\<close> of the kernels' common header are
  parameters. \<^verbatim>\<open>COEFX\<close> and \<^verbatim>\<open>COEFY\<close> are \<open>1.0\<close>.

  \<^verbatim>\<open>check_task\<close> (lines 1347 to 1395): \<^verbatim>\<open>OUT(i, j)\<close> is the output field at the cell
  \<open>(luX + i, luY + j)\<close> of the grid.
\<close>

definition COEFX :: "'a::one" where "COEFX = 1"
definition COEFY :: "'a::one" where "COEFY = 1"

definition norm_value :: "(int \<Rightarrow> 'a) \<Rightarrow> int \<Rightarrow> 'a::{one,plus,times}" where
  "norm_value DTYPE numIterations = DTYPE numIterations * (COEFX + COEFY)"

definition check_cell ::
  "int \<Rightarrow> int \<Rightarrow> 'a \<Rightarrow> ('a \<Rightarrow> 'a) \<Rightarrow> (int \<times> int \<Rightarrow> 'a) \<Rightarrow> int \<Rightarrow> int \<Rightarrow> 'a \<Rightarrow> 'a::{plus,minus}" where
  "check_cell n RADIUS expected ABS out realX realY abserr =
     (if realX < RADIUS \<or> realY < RADIUS then abserr
      else if realX \<ge> n - RADIUS \<or> realY \<ge> n - RADIUS then abserr
      else abserr + ABS (out (realX, realY) - expected))"

definition check_task ::
  "rect \<Rightarrow> int \<Rightarrow> int \<Rightarrow> (int \<Rightarrow> 'a) \<Rightarrow> int \<Rightarrow> ('a \<Rightarrow> 'a) \<Rightarrow> (int \<times> int \<Rightarrow> 'a) \<Rightarrow>
   'a::{zero,one,plus,minus,times}" where
  "check_task r n RADIUS DTYPE numIterations ABS out =
     (let luX = lo0 r; luY = lo1 r;
          blockX = hi0 r - luX + 1; blockY = hi1 r - luY + 1
      in fold (\<lambda>j abserr.
                 fold (\<lambda>i abserr.
                         check_cell n RADIUS (norm_value DTYPE numIterations) ABS out
                           (luX + i) (luY + j) abserr)
                   [0 .. blockX - 1] abserr)
           [0 .. blockY - 1] 0)"

text \<open>
  \<^verbatim>\<open>spmd_task\<close>, lines 1082 to 1097: one \<^verbatim>\<open>check_task\<close> per block of the balanced
  partition \<^verbatim>\<open>privateLp\<close> of the private region; their results are added up.
\<close>

definition spmd_check ::
  "rect \<Rightarrow> int \<Rightarrow> int \<Rightarrow> int \<Rightarrow> (int \<Rightarrow> 'a) \<Rightarrow> int \<Rightarrow> ('a \<Rightarrow> 'a) \<Rightarrow> (int \<times> int \<Rightarrow> 'a) \<Rightarrow>
   error + 'a::{zero,one,plus,minus,times}" where
  "spmd_check privateRect numThreads n RADIUS DTYPE numIterations ABS out =
     (case createBalancedPartition privateRect numThreads of
        Inl e \<Rightarrow> Inl e
      | Inr blocks \<Rightarrow>
          Inr (fold (\<lambda>b abserr. abserr + check_task b n RADIUS DTYPE numIterations ABS out)
                 blocks 0))"

text \<open>
  \<^verbatim>\<open>top_level_task\<close>, lines 560 to 599: the shards' results are added up over the
  tiles, \<^verbatim>\<open>tileY\<close> outermost, and compared with \<^verbatim>\<open>EPSILON\<close>. \<open>shard_abserr\<close> is what
  \<^verbatim>\<open>fm.get_result\<close> returns for a tile (the third component).
\<close>

definition sum_tiles :: "(int \<times> int \<Rightarrow> 'a) \<Rightarrow> int \<Rightarrow> int \<Rightarrow> 'a::{zero,plus}" where
  "sum_tiles shard_abserr Px Py =
     fold (\<lambda>tileY abserr.
             fold (\<lambda>tileX abserr. abserr + shard_abserr (tileX, tileY)) [0 .. Px - 1] abserr)
       [0 .. Py - 1] 0"

definition validate :: "'a::ord \<Rightarrow> 'a \<Rightarrow> error + unit" where
  "validate abserr epsilon = (if abserr < epsilon then Inr () else Inl ExitFailure)"

definition EPSILON :: real where
  "EPSILON = 1 / 10 ^ 8"

definition top_level_task ::
  "string list \<Rightarrow> int \<Rightarrow> int \<Rightarrow> 'a::{zero,plus,ord} \<Rightarrow> (config \<Rightarrow> int \<times> int \<Rightarrow> 'a) \<Rightarrow>
   error + unit" where
  "top_level_task argv gasnet_nodes RADIUS epsilon shard_abserr =
     (case read_and_test_input argv gasnet_nodes RADIUS of
        Inl e \<Rightarrow> Inl e
      | Inr cfg \<Rightarrow>
          validate (sum_tiles (shard_abserr cfg) (Num_procsx cfg) (Num_procsy cfg)) epsilon)"

text \<open>
  The cells of a rectangle in the order in which the loops of \<^verbatim>\<open>check_task\<close> visit
  them (row by row), and the cells at distance at least \<^verbatim>\<open>RADIUS\<close> from every edge
  of the grid. The tiles in the order of the loops of \<^verbatim>\<open>top_level_task\<close>.
\<close>

definition cells :: "rect \<Rightarrow> (int \<times> int) list" where
  "cells r =
     concat (map (\<lambda>j. map (\<lambda>i. (lo0 r + i, lo1 r + j)) [0 .. hi0 r - lo0 r])
               [0 .. hi1 r - lo1 r])"

definition inner_cell :: "int \<Rightarrow> int \<Rightarrow> int \<times> int \<Rightarrow> bool" where
  "inner_cell n RADIUS c =
     (RADIUS \<le> fst c \<and> fst c < n - RADIUS \<and> RADIUS \<le> snd c \<and> snd c < n - RADIUS)"

definition tiles :: "int \<Rightarrow> int \<Rightarrow> (int \<times> int) list" where
  "tiles Px Py = concat (map (\<lambda>tileY. map (\<lambda>tileX. (tileX, tileY)) [0 .. Px - 1]) [0 .. Py - 1])"

subsection \<open>\<^verbatim>\<open>StencilMapper\<close>\<close>

text \<open>
  A \<^verbatim>\<open>Processor\<close> with the node (\<^verbatim>\<open>address_space()\<close>) it belongs to; a \<^verbatim>\<open>Memory\<close>
  is its id, and \<open>NO_MEMORY\<close> the id of the memory that does not exist (what
  \<^verbatim>\<open>operator[]\<close> of \<^verbatim>\<open>all_sysmems\<close> returns for a processor it does not hold). Reading
  \<^verbatim>\<open>proc_map[k]\<close> for a node without processors gives the empty vector.
\<close>

record processor =
  proc_id :: nat
  address_space :: nat

type_synonym memory = nat

definition NO_MEMORY :: memory where
  "NO_MEMORY = 0"

record mapper =
  proc_map :: "nat \<Rightarrow> processor list"
  all_sysmems :: "processor \<Rightarrow> memory"
  num_nodes :: nat

text \<open>
  The constructor (lines 99 to 116) over the processors of the machine, in the
  order of the set \<^verbatim>\<open>all_procs\<close>; \<open>find_memory_kind p\<close> is the system memory the
  machine reports for \<open>p\<close>.
\<close>

definition add_processor :: "(processor \<Rightarrow> memory) \<Rightarrow> processor \<Rightarrow> mapper \<Rightarrow> error + mapper" where
  "add_processor find_memory_kind p m =
     (let node_id = address_space p;
          sysmem = find_memory_kind p
      in if sysmem = NO_MEMORY then Inl AssertionFailure
         else Inr \<lparr> proc_map = (proc_map m)(node_id := proc_map m node_id @ [p]),
                    all_sysmems = (all_sysmems m)(p := sysmem),
                    num_nodes = max (num_nodes m) (node_id + 1) \<rparr>)"

fun add_processors ::
  "(processor \<Rightarrow> memory) \<Rightarrow> processor list \<Rightarrow> mapper \<Rightarrow> error + mapper" where
  "add_processors find_memory_kind [] m = Inr m"
| "add_processors find_memory_kind (p # ps) m =
     (case add_processor find_memory_kind p m of
        Inl e \<Rightarrow> Inl e
      | Inr m' \<Rightarrow> add_processors find_memory_kind ps m')"

definition StencilMapper :: "(processor \<Rightarrow> memory) \<Rightarrow> processor list \<Rightarrow> error + mapper" where
  "StencilMapper find_memory_kind all_procs =
     add_processors find_memory_kind all_procs
       \<lparr> proc_map = (\<lambda>node. []), all_sysmems = (\<lambda>p. NO_MEMORY), num_nodes = 0 \<rparr>"

record region_requirement =
  region :: nat
  target_ranking :: "memory list"
  virtual_map :: bool
  enable_WAR_optimization :: bool
  reduction_list :: bool
  blocking_factor :: nat
  max_blocking_factor :: nat

record task =
  target_proc :: processor
  regions :: "region_requirement list"

text \<open>\<^verbatim>\<open>map_task\<close> (lines 158 to 175).\<close>

definition map_task :: "mapper \<Rightarrow> task \<Rightarrow> task" where
  "map_task m t =
     (let sysmem = all_sysmems m (target_proc t) in
      t\<lparr> regions :=
           map (\<lambda>req. req\<lparr> virtual_map := False, enable_WAR_optimization := False,
                            reduction_list := False,
                            blocking_factor := max_blocking_factor req,
                            target_ranking := target_ranking req @ [sysmem] \<rparr>)
             (regions t) \<rparr>)"

text \<open>
  The read \<^verbatim>\<open>*(proc_map[node].begin() + pos)\<close> of line 186. The program does not compare
  \<^verbatim>\<open>pos\<close> with the size of the vector. Inside the vector the read gives its element;
  past its end the read is undefined in C++ and the program goes on with what it
  finds there: \<open>beyond node pos\<close> stands for what lies \<open>pos\<close> places after the start of
  the vector of \<open>node\<close>.
\<close>

definition read_proc :: "(nat \<Rightarrow> nat \<Rightarrow> processor) \<Rightarrow> mapper \<Rightarrow> nat \<Rightarrow> nat \<Rightarrow> processor" where
  "read_proc beyond m node pos =
     (let procs = proc_map m node in
      if pos < length procs then procs ! pos else beyond node pos)"

text \<open>
  \<^verbatim>\<open>map_must_epoch\<close>, lines 181 to 188: the loop over the shards, \<open>i\<close> the index of the
  first task of the list. Dividing by \<^verbatim>\<open>shards_per_node = 0\<close> or by \<^verbatim>\<open>num_nodes = 0\<close>
  is \<open>Inl DivisionByZero\<close>; the loop has no other way to fail.
\<close>

fun assign_shards ::
  "(nat \<Rightarrow> nat \<Rightarrow> processor) \<Rightarrow> mapper \<Rightarrow> nat \<Rightarrow> nat \<Rightarrow> task list \<Rightarrow> error + task list" where
  "assign_shards beyond m shards_per_node i [] = Inr []"
| "assign_shards beyond m shards_per_node i (t # ts) =
     (if shards_per_node = 0 then Inl DivisionByZero
      else
        (case assign_shards beyond m shards_per_node (Suc i) ts of
           Inl e \<Rightarrow> Inl e
         | Inr ts' \<Rightarrow>
             Inr (map_task m
                    (t\<lparr> target_proc :=
                         read_proc beyond m (i div shards_per_node) (i mod shards_per_node) \<rparr>)
                  # ts')))"

definition map_must_epoch_shards ::
  "(nat \<Rightarrow> nat \<Rightarrow> processor) \<Rightarrow> mapper \<Rightarrow> task list \<Rightarrow> error + task list" where
  "map_must_epoch_shards beyond m tasks =
     (if num_nodes m = 0 then Inl DivisionByZero
      else assign_shards beyond m (length tasks div num_nodes m) 0 tasks)"

text \<open>
  A \<^verbatim>\<open>MappingConstraint\<close>: the tasks \<^verbatim>\<open>t1\<close> and \<^verbatim>\<open>t2\<close> are pointers into the tasks of
  the epoch, here their indices in the task list, and \<^verbatim>\<open>idx1\<close>, \<^verbatim>\<open>idx2\<close> index their
  region vectors. An index outside its vector is undefined in C++ and gives
  \<open>Inl OutOfRange\<close>.
\<close>

record constraint =
  t1 :: nat
  idx1 :: nat
  t2 :: nat
  idx2 :: nat

definition slot_ok :: "task list \<Rightarrow> nat \<Rightarrow> nat \<Rightarrow> bool" where
  "slot_ok tasks t idx = (t < length tasks \<and> idx < length (regions (tasks ! t)))"

definition constraint_ok :: "task list \<Rightarrow> constraint \<Rightarrow> bool" where
  "constraint_ok tasks c = (slot_ok tasks (t1 c) (idx1 c) \<and> slot_ok tasks (t2 c) (idx2 c))"

definition slot_region :: "task list \<Rightarrow> nat \<Rightarrow> nat \<Rightarrow> nat" where
  "slot_region tasks t idx = region (regions (tasks ! t) ! idx)"


text \<open>\<^verbatim>\<open>target_ranking.clear(); target_ranking.push_back(mem)\<close> on one region of one task.\<close>

definition set_ranking :: "nat \<Rightarrow> nat \<Rightarrow> memory \<Rightarrow> task list \<Rightarrow> task list" where
  "set_ranking t idx mem tasks =
     tasks[t := (tasks ! t)\<lparr> regions :=
       (regions (tasks ! t))[idx := (regions (tasks ! t) ! idx)\<lparr> target_ranking := [mem] \<rparr>] \<rparr>]"

text \<open>The body of the first loop over the constraints (lines 192 to 217).\<close>

definition first_pass_step ::
  "mapper \<Rightarrow> constraint \<Rightarrow> task list \<times> (nat \<rightharpoonup> memory) \<Rightarrow>
   error + task list \<times> (nat \<rightharpoonup> memory)" where
  "first_pass_step m c s =
     (let tasks = fst s; mappings = snd s in
      if idx1 c = 0 then
        (if \<not> constraint_ok tasks c then Inl OutOfRange
         else
           (let sysmem = all_sysmems m (target_proc (tasks ! t1 c));
                tasks = set_ranking (t1 c) (idx1 c) sysmem tasks;
                tasks = set_ranking (t2 c) (idx2 c) sysmem tasks
            in Inr (tasks, mappings(slot_region tasks (t1 c) (idx1 c) \<mapsto> sysmem))))
      else if idx2 c = 0 then
        (if \<not> constraint_ok tasks c then Inl OutOfRange
         else
           (let sysmem = all_sysmems m (target_proc (tasks ! t2 c));
                tasks = set_ranking (t1 c) (idx1 c) sysmem tasks;
                tasks = set_ranking (t2 c) (idx2 c) sysmem tasks
            in Inr (tasks, mappings(slot_region tasks (t2 c) (idx2 c) \<mapsto> sysmem))))
      else Inr s)"

fun first_pass ::
  "mapper \<Rightarrow> constraint list \<Rightarrow> task list \<times> (nat \<rightharpoonup> memory) \<Rightarrow>
   error + task list \<times> (nat \<rightharpoonup> memory)" where
  "first_pass m [] s = Inr s"
| "first_pass m (c # cs) s =
     (case first_pass_step m c s of
        Inl e \<Rightarrow> Inl e
      | Inr s' \<Rightarrow> first_pass m cs s')"

text \<open>The body of the second loop (lines 219 to 232), with its assertion.\<close>

definition second_pass_step ::
  "(nat \<rightharpoonup> memory) \<Rightarrow> constraint \<Rightarrow> task list \<Rightarrow> error + task list" where
  "second_pass_step mappings c tasks =
     (if idx1 c \<noteq> 0 \<and> idx2 c \<noteq> 0 then
        (if \<not> constraint_ok tasks c then Inl OutOfRange
         else
           (case mappings (slot_region tasks (t1 c) (idx1 c)) of
              None \<Rightarrow> Inl AssertionFailure
            | Some regmem \<Rightarrow>
                Inr (set_ranking (t2 c) (idx2 c) regmem
                       (set_ranking (t1 c) (idx1 c) regmem tasks))))
      else Inr tasks)"

fun second_pass ::
  "(nat \<rightharpoonup> memory) \<Rightarrow> constraint list \<Rightarrow> task list \<Rightarrow> error + task list" where
  "second_pass mappings [] tasks = Inr tasks"
| "second_pass mappings (c # cs) tasks =
     (case second_pass_step mappings c tasks of
        Inl e \<Rightarrow> Inl e
      | Inr tasks' \<Rightarrow> second_pass mappings cs tasks')"

definition map_must_epoch_constraints ::
  "mapper \<Rightarrow> task list \<Rightarrow> constraint list \<Rightarrow> error + task list" where
  "map_must_epoch_constraints m tasks constraints =
     (case first_pass m constraints (tasks, Map.empty) of
        Inl e \<Rightarrow> Inl e
      | Inr s \<Rightarrow> second_pass (snd s) constraints (fst s))"

definition map_must_epoch ::
  "(nat \<Rightarrow> nat \<Rightarrow> processor) \<Rightarrow> mapper \<Rightarrow> task list \<Rightarrow> constraint list \<Rightarrow> error + task list" where
  "map_must_epoch beyond m tasks constraints =
     (case map_must_epoch_shards beyond m tasks of
        Inl e \<Rightarrow> Inl e
      | Inr tasks' \<Rightarrow> map_must_epoch_constraints m tasks' constraints)"

text \<open>
  A constraint is primary when one of its sides is the region \<open>0\<close> of its task; the
  program takes \<^verbatim>\<open>t1\<close> for the owner when \<^verbatim>\<open>idx1\<close> is \<open>0\<close>, else \<^verbatim>\<open>t2\<close>.
\<close>

definition primary :: "constraint \<Rightarrow> bool" where
  "primary c = (idx1 c = 0 \<or> idx2 c = 0)"

definition owner_task :: "constraint \<Rightarrow> nat" where
  "owner_task c = (if idx1 c = 0 then t1 c else t2 c)"



text \<open>
  What the constructor establishes: nodes from \<^verbatim>\<open>num_nodes\<close> on have no processors,
  a node's processors are distinct, come from the machine and belong to the node.
\<close>

definition mapper_inv :: "mapper \<Rightarrow> processor set \<Rightarrow> bool" where
  "mapper_inv m ps =
     ((\<forall>k. num_nodes m \<le> k \<longrightarrow> proc_map m k = []) \<and>
      (\<forall>k. distinct (proc_map m k)) \<and>
      (\<forall>k. set (proc_map m k) \<subseteq> ps) \<and>
      (\<forall>k. \<forall>p \<in> set (proc_map m k). address_space p = k))"

text \<open>
  The two loops over the constraints change target rankings only: the tasks, their
  processors, the number of their regions and the regions' handles stay.
\<close>

definition rankings_only :: "task list \<Rightarrow> task list \<Rightarrow> bool" where
  "rankings_only tasks tasks' =
     (length tasks' = length tasks \<and>
      (\<forall>t. target_proc (tasks' ! t) = target_proc (tasks ! t)) \<and>
      (\<forall>t. length (regions (tasks' ! t)) = length (regions (tasks ! t))) \<and>
      (\<forall>t idx. slot_region tasks' t idx = slot_region tasks t idx))"

text \<open>
  The first row of block \<open>k\<close> of a balanced split, as the specification states the
  split: the first \<open>size mod workers\<close> blocks have \<open>size div workers + 1\<close> rows, the
  others \<open>size div workers\<close>, one after the other from the first row of the range.
\<close>

definition block_start :: "rect \<Rightarrow> int \<Rightarrow> int \<Rightarrow> int" where
  "block_start r numThreads k =
     lo1 r + k * (widthY r div numThreads) + min k (widthY r mod numThreads)"

definition balanced_block :: "rect \<Rightarrow> int \<Rightarrow> int \<Rightarrow> rect" where
  "balanced_block r numThreads k =
     \<lparr> lo0 = lo0 r, lo1 = block_start r numThreads k,
       hi0 = hi0 r, hi1 = block_start r numThreads (k + 1) - 1 \<rparr>"

section \<open>Properties\<close>

subsection \<open>Signed division on non-negative operands\<close>

lemma sdiv_nonneg: "0 \<le> a \<Longrightarrow> 0 < b \<Longrightarrow> (a::int) sdiv b = a div b"
  by (cases "a = 0") (simp_all add: signed_divide_int_def)

lemma smod_nonneg: "0 \<le> a \<Longrightarrow> 0 < b \<Longrightarrow> (a::int) smod b = a mod b"
  by (cases "a = 0") (simp_all add: signed_modulo_int_def)

subsection \<open>Some command lines\<close>

lemma atoi_examples:
  "atoi ''1'' = 1" "atoi ''3'' = 3" "atoi ''5'' = 5" "atoi ''9'' = 9"
  by (simp_all add: atoi_def isspace_def isdigit_def digit_value_def)

lemma processor_grid_examples: "processor_grid 1 = (1, 1)" "processor_grid 3 = (1, 3)"
  by (simp_all add: processor_grid_def numeral_eq_Suc signed_modulo_int_def
      signed_divide_int_def)

subsection \<open>Ghost inputs of the boundary sectors\<close>

lemma dirs_upt: "[LEFT ..< Suc DOWN_LEFT] = [0, 1, 2, 3, 4, 5, 6, 7]"
  by (simp add: boundary_defs upt_conv_Cons)

lemma ghost_inputs_boundaryLauncher:
  "ghost_inputs (boundaryLauncher dir) =
     (if dir mod 2 = 0 then [(dir div 2) mod 4] else [(dir div 2) mod 4, (dir div 2 + 1) mod 4])"
  by (simp add: ghost_inputs_def boundaryLauncher_def ghost_requirements_def upt_conv_Cons)

lemma reads_private_boundaryLauncher: "reads_private (boundaryLauncher dir)"
  by (simp add: reads_private_def boundaryLauncher_def)

lemma boundary_ghost_table:
  "map (\<lambda>dir. ghost_inputs (boundaryLauncher dir)) [LEFT, UP, RIGHT, DOWN] =
     [[GHOST_LEFT], [GHOST_UP], [GHOST_RIGHT], [GHOST_DOWN]] \<and>
   map (\<lambda>dir. ghost_inputs (boundaryLauncher dir)) [LEFT_UP, UP_RIGHT, RIGHT_DOWN, DOWN_LEFT] =
     [[GHOST_LEFT, GHOST_UP], [GHOST_UP, GHOST_RIGHT], [GHOST_RIGHT, GHOST_DOWN],
      [GHOST_DOWN, GHOST_LEFT]]"
  by (simp add: ghost_inputs_boundaryLauncher boundary_defs ghost_defs)

text \<open>
  Claim C6. In the boundary launch of one iteration, every launched sector \<open>dir\<close> is one
  of the eight perimeter sectors with \<^verbatim>\<open>hasBoundary[dir]\<close> set; it reads the private
  region; an edge sector (\<open>LEFT\<close>, \<open>UP\<close>, \<open>RIGHT\<close>, \<open>DOWN\<close>) reads exactly the one ghost
  region of direction \<open>dir / 2\<close>, a corner sector (\<open>LEFT_UP\<close>, \<open>UP_RIGHT\<close>,
  \<open>RIGHT_DOWN\<close>, \<open>DOWN_LEFT\<close>) exactly the two ghost regions of directions \<open>dir / 2\<close>
  and \<open>(dir / 2 + 1) mod 4\<close>; so every sector reads one or two ghost regions.
\<close>

theorem boundary_ghost_dependencies:
  "\<forall>(dir, reqs) \<in> set (boundary_launches hasBoundary).
     dir \<le> DOWN_LEFT \<and> hasBoundary ! dir \<and> reqs = boundaryLauncher dir \<and>
     reads_private reqs \<and>
     (dir \<in> {LEFT, UP, RIGHT, DOWN} \<longrightarrow> ghost_inputs reqs = [dir div 2]) \<and>
     (dir \<in> {LEFT_UP, UP_RIGHT, RIGHT_DOWN, DOWN_LEFT} \<longrightarrow>
        ghost_inputs reqs = [dir div 2, (dir div 2 + 1) mod 4]) \<and>
     (length (ghost_inputs reqs) = 1 \<or> length (ghost_inputs reqs) = 2)"
  unfolding boundary_launches_def dirs_upt
  by (auto simp: ghost_inputs_boundaryLauncher reads_private_boundaryLauncher boundary_defs)

theorem boundary_ghost_dependencies_witness:
  "(UP_RIGHT, boundaryLauncher UP_RIGHT) \<in>
      set (boundary_launches [True, False, True, True, True, False, False, False, False]) \<and>
   ghost_inputs (boundaryLauncher UP_RIGHT) = [GHOST_UP, GHOST_RIGHT] \<and>
   (UP, boundaryLauncher UP) \<in>
      set (boundary_launches [True, False, True, True, True, False, False, False, False]) \<and>
   ghost_inputs (boundaryLauncher UP) = [GHOST_UP]"
proof -
  let ?hb = "[True, False, True, True, True, False, False, False, False]"
  have m1: "(UP_RIGHT, boundaryLauncher UP_RIGHT) \<in> set (boundary_launches ?hb)"
    unfolding boundary_launches_def dirs_upt by (simp add: boundary_defs)
  have m2: "(UP, boundaryLauncher UP) \<in> set (boundary_launches ?hb)"
    unfolding boundary_launches_def dirs_upt by (simp add: boundary_defs)
  from boundary_ghost_dependencies [of ?hb] m1
  have "ghost_inputs (boundaryLauncher UP_RIGHT) = [UP_RIGHT div 2, (UP_RIGHT div 2 + 1) mod 4]"
    by blast
  moreover from boundary_ghost_dependencies [of ?hb] m2
  have "ghost_inputs (boundaryLauncher UP) = [UP div 2]"
    by blast
  ultimately show ?thesis using m1 m2 by (simp add: boundary_defs ghost_defs)
qed

subsection \<open>The halo-extended tile box\<close>

lemma fold_coloring_row:
  "fold (\<lambda>tileX c. c((tileX, tileY) \<mapsto> f tileX)) xs c (x, y) =
     (if y = tileY \<and> x \<in> set xs then Some (f x) else c (x, y))"
  by (induction xs arbitrary: c) auto

lemma haloColoring_row_apply:
  "haloColoring_row n R Px sx sy tileY c (x, y) =
     (if y = tileY \<and> 0 \<le> x \<and> x < Px then Some (tileDomain n R sx sy x y) else c (x, y))"
  unfolding haloColoring_row_def by (simp add: fold_coloring_row)

lemma fold_haloColoring_rows:
  "fold (haloColoring_row n R Px sx sy) ys c (x, y) =
     (if y \<in> set ys \<and> 0 \<le> x \<and> x < Px then Some (tileDomain n R sx sy x y) else c (x, y))"
  by (induction ys arbitrary: c) (auto simp: haloColoring_row_apply)

lemma haloColoring_apply:
  "haloColoring n R Px Py (x, y) =
     (if 0 \<le> x \<and> x < Px \<and> 0 \<le> y \<and> y < Py
      then Some (tileDomain n R (n sdiv Px) (n sdiv Py) x y) else None)"
  unfolding haloColoring_def Let_def by (auto simp: fold_haloColoring_rows)

lemma tile_edge_le:
  assumes "0 \<le> n" "0 \<le> t" "t < P"
  shows "(t + 1) * (n div P) \<le> (n::int)" "0 \<le> t * (n div P)"
proof -
  have P: "0 < P" using assms by simp
  have w: "0 \<le> n div P" using assms P by (simp add: pos_imp_zdiv_nonneg_iff)
  have "(t + 1) * (n div P) \<le> P * (n div P)"
    using assms w by (intro mult_right_mono) auto
  also have "\<dots> \<le> n"
    using mult_div_mod_eq [of P n] pos_mod_sign [of P n] P by linarith
  finally show "(t + 1) * (n div P) \<le> n" .
  show "0 \<le> t * (n div P)" using assms w by simp
qed

lemma halo_axis:
  assumes "1 \<le> R" "0 \<le> a" "b \<le> (n::int)"
  shows "(max (a - R) 0 = a) = (a = 0)" "(min (b + R) n - 1 = b - 1) = (b = n)"
  using assms by (auto simp: max_def min_def)

text \<open>
  Claim C4. For every tile \<open>(tx, ty)\<close> of the \<open>Px \<times> Py\<close> tile grid, the rectangle that
  \<^verbatim>\<open>top_level_task\<close> stores in \<^verbatim>\<open>haloColoring\<close> is, per axis,
  \<open>[max (t * w - R) 0, min ((t + 1) * w + R) n - 1]\<close> with \<open>w\<close> the tile width \<^verbatim>\<open>n / P\<close>
  of that axis. The halo is absent on a side (the box ends at the tile's own edge
  \<open>t * w\<close>, or \<open>(t + 1) * w - 1\<close>) exactly where that edge of the tile lies on the
  global boundary (\<open>t * w = 0\<close>, or \<open>(t + 1) * w = n\<close>).
\<close>

theorem halo_tile_box:
  assumes "0 \<le> n" "1 \<le> R" "0 \<le> tx" "tx < Px" "0 \<le> ty" "ty < Py"
  shows "\<exists>b. haloColoring n R Px Py (tx, ty) = Some b \<and>
           lo0 b = max (tx * (n sdiv Px) - R) 0 \<and>
           hi0 b = min ((tx + 1) * (n sdiv Px) + R) n - 1 \<and>
           lo1 b = max (ty * (n sdiv Py) - R) 0 \<and>
           hi1 b = min ((ty + 1) * (n sdiv Py) + R) n - 1 \<and>
           (lo0 b = tx * (n sdiv Px)) = (tx * (n sdiv Px) = 0) \<and>
           (hi0 b = (tx + 1) * (n sdiv Px) - 1) = ((tx + 1) * (n sdiv Px) = n) \<and>
           (lo1 b = ty * (n sdiv Py)) = (ty * (n sdiv Py) = 0) \<and>
           (hi1 b = (ty + 1) * (n sdiv Py) - 1) = ((ty + 1) * (n sdiv Py) = n)"
proof -
  have Px: "0 < Px" and Py: "0 < Py" using assms by auto
  have sx: "n sdiv Px = n div Px" and sy: "n sdiv Py = n div Py"
    using assms Px Py by (simp_all add: sdiv_nonneg)
  note ex = tile_edge_le [OF assms(1) assms(3) assms(4)]
  note ey = tile_edge_le [OF assms(1) assms(5) assms(6)]
  note hx = halo_axis [OF assms(2) ex(2) ex(1)]
  note hy = halo_axis [OF assms(2) ey(2) ey(1)]
  have "haloColoring n R Px Py (tx, ty) =
          Some (tileDomain n R (n sdiv Px) (n sdiv Py) tx ty)"
    using assms by (simp add: haloColoring_apply)
  then show ?thesis
    using hx hy by (simp add: tileDomain_def sx sy)
qed

theorem halo_tile_box_witness:
  "haloColoring 8 1 2 2 (1, 0) = Some \<lparr> lo0 = 3, lo1 = 0, hi0 = 7, hi1 = 4 \<rparr>"
proof -
  from halo_tile_box [of 8 1 1 2 0 2]
  obtain b where "haloColoring 8 1 2 2 (1, 0) = Some b"
    and "lo0 b = max (1 * (8 sdiv 2) - 1) 0" and "hi0 b = min ((1 + 1) * (8 sdiv 2) + 1) 8 - 1"
    and "lo1 b = max (0 * (8 sdiv 2) - 1) 0" and "hi1 b = min ((0 + 1) * (8 sdiv 2) + 1) 8 - 1"
    by auto
  then show ?thesis by (cases b) (simp add: sdiv_nonneg)
qed

subsection \<open>The sectors of a tile\<close>

text \<open>
  The private region of \<^verbatim>\<open>spmd_task\<close> is the colour \<^verbatim>\<open>PRIVATE\<close> of the halo partition.
\<close>

lemma createHaloPartition_private:
  "createHaloPartition haloBox n R ! PRIVATE = Some (shrink n R haloBox)"
  by (simp add: createHaloPartition_def Let_def ghost_defs numeral_eq_Suc)

lemma replicate9: "replicate 9 x = [x, x, x, x, x, x, x, x, x]"
  by (simp add: numeral_eq_Suc)

lemma privateBox_narrow: "privateBox 9 2 1 3 0 1 = \<lparr> lo0 = 0, lo1 = 3, hi0 = 8, hi1 = 5 \<rparr>"
  by (simp add: privateBox_def tileDomain_def shrink_def sdiv_nonneg)

lemma tile_sectors_narrow:
  "tile_sectors 9 2 1 3 0 1 =
     ([None, None, Some \<lparr> lo0 = 0, lo1 = 3, hi0 = 8, hi1 = 4 \<rparr>, None, None, None,
       Some \<lparr> lo0 = 0, lo1 = 4, hi0 = 8, hi1 = 5 \<rparr>, None,
       Some \<lparr> lo0 = 0, lo1 = 5, hi0 = 8, hi1 = 3 \<rparr>],
      [False, False, True, False, False, False, True, False, False])"
  by (simp add: tile_sectors_def privateBox_narrow createBoundaryPartition_def shrink_def
      set_boundary_def Let_def replicate9 boundary_defs)

text \<open>
  The sectors in general. The result of \<^verbatim>\<open>createBoundaryPartition\<close> written out;
  which cells each sector holds; which sectors exist; and that the sectors tile the
  box when the interior box is not inverted, which holds for every tile of a grid
  whose tiles are at least \<open>2 * RADIUS\<close> wide on both axes.
\<close>

lemma createBoundaryPartition_explicit:
  fixes b :: rect and n R :: int
  defines "ib \<equiv> shrink n R b"
  shows "createBoundaryPartition b n R (replicate 9 False) =
    ([if lo0 ib > 0 then Some \<lparr> lo0 = lo0 b, lo1 = lo1 ib, hi0 = lo0 ib - 1, hi1 = hi1 ib \<rparr> else None,
      if lo0 ib > 0 \<and> lo1 ib > 0
        then Some \<lparr> lo0 = lo0 b, lo1 = lo1 b, hi0 = lo0 ib - 1, hi1 = lo1 ib - 1 \<rparr> else None,
      if lo1 ib > 0 then Some \<lparr> lo0 = lo0 ib, lo1 = lo1 b, hi0 = hi0 ib, hi1 = lo1 ib - 1 \<rparr> else None,
      if lo1 ib > 0 \<and> hi0 ib < n - 1
        then Some \<lparr> lo0 = hi0 ib + 1, lo1 = lo1 b, hi0 = hi0 b, hi1 = lo1 ib - 1 \<rparr> else None,
      if hi0 ib < n - 1
        then Some \<lparr> lo0 = hi0 ib + 1, lo1 = lo1 ib, hi0 = hi0 b, hi1 = hi1 ib \<rparr> else None,
      if hi0 ib < n - 1 \<and> hi1 ib < n - 1
        then Some \<lparr> lo0 = hi0 ib + 1, lo1 = hi1 ib + 1, hi0 = hi0 b, hi1 = hi1 b \<rparr> else None,
      if hi1 ib < n - 1
        then Some \<lparr> lo0 = lo0 ib, lo1 = hi1 ib + 1, hi0 = hi0 ib, hi1 = hi1 b \<rparr> else None,
      if hi1 ib < n - 1 \<and> lo0 ib > 0
        then Some \<lparr> lo0 = lo0 b, lo1 = hi1 ib + 1, hi0 = lo0 ib - 1, hi1 = hi1 b \<rparr> else None,
      Some ib],
     [lo0 ib > 0, lo0 ib > 0 \<and> lo1 ib > 0, lo1 ib > 0, lo1 ib > 0 \<and> hi0 ib < n - 1,
      hi0 ib < n - 1, hi0 ib < n - 1 \<and> hi1 ib < n - 1, hi1 ib < n - 1,
      hi1 ib < n - 1 \<and> lo0 ib > 0, False])"
  unfolding createBoundaryPartition_def ib_def [symmetric] Let_def set_boundary_def replicate9
    boundary_defs
  by (cases "lo0 ib > 0"; cases "lo1 ib > 0"; cases "hi0 ib < n - 1"; cases "hi1 ib < n - 1")
     simp_all


lemma shrink_bounds:
  assumes "1 \<le> R" "0 \<le> lo0 b" "hi0 b \<le> n - 1" "0 \<le> lo1 b" "hi1 b \<le> n - 1"
  shows "(lo0 (shrink n R b) > 0) = (lo0 (shrink n R b) > lo0 b)"
    and "(lo1 (shrink n R b) > 0) = (lo1 (shrink n R b) > lo1 b)"
    and "(hi0 (shrink n R b) < n - 1) = (hi0 (shrink n R b) < hi0 b)"
    and "(hi1 (shrink n R b) < n - 1) = (hi1 (shrink n R b) < hi1 b)"
    and "lo0 b \<le> lo0 (shrink n R b)" and "lo1 b \<le> lo1 (shrink n R b)"
    and "hi0 (shrink n R b) \<le> hi0 b" and "hi1 (shrink n R b) \<le> hi1 b"
  using assms by (auto simp: shrink_def)

lemma sector_membership:
  fixes b :: rect and n R :: int
  assumes "1 \<le> R" "0 \<le> lo0 b" "hi0 b \<le> n - 1" "0 \<le> lo1 b" "hi1 b \<le> n - 1"
  defines "ib \<equiv> shrink n R b"
  defines "s \<equiv> createBoundaryPartition b n R (replicate 9 False)"
  shows "(x, y) \<in> sector_points s LEFT =
           (lo0 b \<le> x \<and> x < lo0 ib \<and> lo1 ib \<le> y \<and> y \<le> hi1 ib)"
    and "(x, y) \<in> sector_points s LEFT_UP =
           (lo0 b \<le> x \<and> x < lo0 ib \<and> lo1 b \<le> y \<and> y < lo1 ib)"
    and "(x, y) \<in> sector_points s UP =
           (lo0 ib \<le> x \<and> x \<le> hi0 ib \<and> lo1 b \<le> y \<and> y < lo1 ib)"
    and "(x, y) \<in> sector_points s UP_RIGHT =
           (hi0 ib < x \<and> x \<le> hi0 b \<and> lo1 b \<le> y \<and> y < lo1 ib)"
    and "(x, y) \<in> sector_points s RIGHT =
           (hi0 ib < x \<and> x \<le> hi0 b \<and> lo1 ib \<le> y \<and> y \<le> hi1 ib)"
    and "(x, y) \<in> sector_points s RIGHT_DOWN =
           (hi0 ib < x \<and> x \<le> hi0 b \<and> hi1 ib < y \<and> y \<le> hi1 b)"
    and "(x, y) \<in> sector_points s DOWN =
           (lo0 ib \<le> x \<and> x \<le> hi0 ib \<and> hi1 ib < y \<and> y \<le> hi1 b)"
    and "(x, y) \<in> sector_points s DOWN_LEFT =
           (lo0 b \<le> x \<and> x < lo0 ib \<and> hi1 ib < y \<and> y \<le> hi1 b)"
    and "(x, y) \<in> sector_points s INTERIOR =
           (lo0 ib \<le> x \<and> x \<le> hi0 ib \<and> lo1 ib \<le> y \<and> y \<le> hi1 ib)"
proof -
  note sb = shrink_bounds [OF assms(1-5), folded ib_def]
  note ex = createBoundaryPartition_explicit [of b n R, folded ib_def s_def]
  show "(x, y) \<in> sector_points s LEFT =
           (lo0 b \<le> x \<and> x < lo0 ib \<and> lo1 ib \<le> y \<and> y \<le> hi1 ib)"
    using sb by (auto simp: ex sector_points_def domain_points_def points_def in_rect_def LEFT_def)
  show "(x, y) \<in> sector_points s LEFT_UP =
           (lo0 b \<le> x \<and> x < lo0 ib \<and> lo1 b \<le> y \<and> y < lo1 ib)"
    using sb by (auto simp: ex sector_points_def domain_points_def points_def in_rect_def LEFT_UP_def)
  show "(x, y) \<in> sector_points s UP =
           (lo0 ib \<le> x \<and> x \<le> hi0 ib \<and> lo1 b \<le> y \<and> y < lo1 ib)"
    using sb by (auto simp: ex sector_points_def domain_points_def points_def in_rect_def UP_def)
  show "(x, y) \<in> sector_points s UP_RIGHT =
           (hi0 ib < x \<and> x \<le> hi0 b \<and> lo1 b \<le> y \<and> y < lo1 ib)"
    using sb by (auto simp: ex sector_points_def domain_points_def points_def in_rect_def UP_RIGHT_def)
  show "(x, y) \<in> sector_points s RIGHT =
           (hi0 ib < x \<and> x \<le> hi0 b \<and> lo1 ib \<le> y \<and> y \<le> hi1 ib)"
    using sb by (auto simp: ex sector_points_def domain_points_def points_def in_rect_def RIGHT_def)
  show "(x, y) \<in> sector_points s RIGHT_DOWN =
           (hi0 ib < x \<and> x \<le> hi0 b \<and> hi1 ib < y \<and> y \<le> hi1 b)"
    using sb by (auto simp: ex sector_points_def domain_points_def points_def in_rect_def RIGHT_DOWN_def)
  show "(x, y) \<in> sector_points s DOWN =
           (lo0 ib \<le> x \<and> x \<le> hi0 ib \<and> hi1 ib < y \<and> y \<le> hi1 b)"
    using sb by (auto simp: ex sector_points_def domain_points_def points_def in_rect_def DOWN_def)
  show "(x, y) \<in> sector_points s DOWN_LEFT =
           (lo0 b \<le> x \<and> x < lo0 ib \<and> hi1 ib < y \<and> y \<le> hi1 b)"
    using sb by (auto simp: ex sector_points_def domain_points_def points_def in_rect_def DOWN_LEFT_def)
  show "(x, y) \<in> sector_points s INTERIOR =
           (lo0 ib \<le> x \<and> x \<le> hi0 ib \<and> lo1 ib \<le> y \<and> y \<le> hi1 ib)"
    by (auto simp: ex sector_points_def domain_points_def points_def in_rect_def INTERIOR_def)
qed


lemma sector_set: "{LEFT .. INTERIOR} =
    {LEFT, LEFT_UP, UP, UP_RIGHT, RIGHT, RIGHT_DOWN, DOWN, DOWN_LEFT, INTERIOR}"
  by (auto simp: boundary_defs)

lemma sectors_exist:
  fixes b :: rect and n R :: int
  assumes "1 \<le> R" "0 \<le> lo0 b" "hi0 b \<le> n - 1" "0 \<le> lo1 b" "hi1 b \<le> n - 1"
  defines "ib \<equiv> shrink n R b"
  defines "s \<equiv> createBoundaryPartition b n R (replicate 9 False)"
  shows "sector_exists s LEFT = (lo0 ib > lo0 b)"
    and "sector_exists s UP = (lo1 ib > lo1 b)"
    and "sector_exists s RIGHT = (hi0 ib < hi0 b)"
    and "sector_exists s DOWN = (hi1 ib < hi1 b)"
    and "sector_exists s LEFT_UP = (sector_exists s LEFT \<and> sector_exists s UP)"
    and "sector_exists s UP_RIGHT = (sector_exists s UP \<and> sector_exists s RIGHT)"
    and "sector_exists s RIGHT_DOWN = (sector_exists s RIGHT \<and> sector_exists s DOWN)"
    and "sector_exists s DOWN_LEFT = (sector_exists s DOWN \<and> sector_exists s LEFT)"
    and "sector_exists s INTERIOR"
    and "\<forall>dir \<in> {LEFT .. INTERIOR}. \<not> sector_exists s dir \<longrightarrow> sector_points s dir = {}"
proof -
  note sb = shrink_bounds [OF assms(1-5), folded ib_def]
  note ex = createBoundaryPartition_explicit [of b n R, folded ib_def s_def]
  show "sector_exists s LEFT = (lo0 ib > lo0 b)"
    and "sector_exists s UP = (lo1 ib > lo1 b)"
    and "sector_exists s RIGHT = (hi0 ib < hi0 b)"
    and "sector_exists s DOWN = (hi1 ib < hi1 b)"
    and "sector_exists s LEFT_UP = (sector_exists s LEFT \<and> sector_exists s UP)"
    and "sector_exists s UP_RIGHT = (sector_exists s UP \<and> sector_exists s RIGHT)"
    and "sector_exists s RIGHT_DOWN = (sector_exists s RIGHT \<and> sector_exists s DOWN)"
    and "sector_exists s DOWN_LEFT = (sector_exists s DOWN \<and> sector_exists s LEFT)"
    and "sector_exists s INTERIOR"
    using sb(1-4) by (simp_all add: sector_exists_def ex boundary_defs)
  show "\<forall>dir \<in> {LEFT .. INTERIOR}. \<not> sector_exists s dir \<longrightarrow> sector_points s dir = {}"
    unfolding sector_set
    by (simp add: sector_exists_def sector_points_def domain_points_def ex boundary_defs)
qed

lemma sectors_tile_box:
  fixes b :: rect and n R :: int
  assumes "1 \<le> R" "0 \<le> lo0 b" "hi0 b \<le> n - 1" "0 \<le> lo1 b" "hi1 b \<le> n - 1"
    and nd: "lo0 (shrink n R b) \<le> hi0 (shrink n R b) + 1"
            "lo1 (shrink n R b) \<le> hi1 (shrink n R b) + 1"
  defines "s \<equiv> createBoundaryPartition b n R (replicate 9 False)"
  shows "(\<Union>dir \<in> {LEFT .. INTERIOR}. sector_points s dir) = points b"
    and "\<forall>d \<in> {LEFT .. INTERIOR}. \<forall>d' \<in> {LEFT .. INTERIOR}.
           d \<noteq> d' \<longrightarrow> sector_points s d \<inter> sector_points s d' = {}"
proof -
  note sb = shrink_bounds(5-8) [OF assms(1-5)]
  note M = sector_membership [OF assms(1-5), folded s_def]
  show "(\<Union>dir \<in> {LEFT .. INTERIOR}. sector_points s dir) = points b"
  proof (rule set_eqI)
    fix p :: "int \<times> int"
    obtain x y where p: "p = (x, y)" by (cases p)
    show "(p \<in> (\<Union>dir \<in> {LEFT .. INTERIOR}. sector_points s dir)) = (p \<in> points b)"
      unfolding sector_set p using sb nd
      by (simp add: M points_def in_rect_def) linarith
  qed
  have dis: "sector_points s d \<inter> sector_points s d' = {}"
    if "d \<in> {LEFT .. INTERIOR}" "d' \<in> {LEFT .. INTERIOR}" "d \<noteq> d'" for d d'
  proof -
    have "False" if "p \<in> sector_points s d" "p \<in> sector_points s d'" for p
    proof -
      obtain x y where p: "p = (x, y)" by (cases p)
      from \<open>d \<in> {LEFT .. INTERIOR}\<close> \<open>d' \<in> {LEFT .. INTERIOR}\<close> \<open>d \<noteq> d'\<close> that nd
      show False
        unfolding sector_set p by (auto simp: M)
    qed
    then show ?thesis by blast
  qed
  then show "\<forall>d \<in> {LEFT .. INTERIOR}. \<forall>d' \<in> {LEFT .. INTERIOR}.
           d \<noteq> d' \<longrightarrow> sector_points s d \<inter> sector_points s d' = {}"
    by blast
qed


lemma tile_axis_facts:
  fixes n P t :: int
  assumes "0 < n" "0 \<le> t" "t < P" "n mod P = 0"
  defines "w \<equiv> n div P"
  shows "0 \<le> t * w" and "t * w = 0 \<or> w \<le> t * w" and "t * w + w \<le> n"
    and "t * w + w = n \<or> t * w + 2 * w \<le> n" and "(t + 1) * w = t * w + w" and "0 < w"
proof -
  have P: "0 < P" using assms by simp
  have n: "n = P * w" using assms(4) unfolding w_def by auto
  show w: "0 < w" using assms(1) P n by (simp add: zero_less_mult_iff)
  show "0 \<le> t * w" using assms(2) w by simp
  show "t * w = 0 \<or> w \<le> t * w"
  proof (cases "t = 0")
    case True
    then show ?thesis by simp
  next
    case False
    then have "1 * w \<le> t * w" using assms(2) w by (intro mult_right_mono) simp_all
    then show ?thesis by simp
  qed
  show e: "(t + 1) * w = t * w + w" by (simp add: algebra_simps)
  have "(t + 1) * w \<le> P * w" using assms(3) w by (intro mult_right_mono) simp_all
  then show "t * w + w \<le> n" unfolding e n .
  show "t * w + w = n \<or> t * w + 2 * w \<le> n"
  proof (cases "t = P - 1")
    case True
    have "t * w + w = (t + 1) * w" by (simp add: algebra_simps)
    also have "\<dots> = P * w" using True by simp
    finally show ?thesis using n by simp
  next
    case False
    then have "(t + 2) * w \<le> P * w" using assms(3) w by (intro mult_right_mono) simp_all
    moreover have "(t + 2) * w = t * w + 2 * w" by (simp add: algebra_simps)
    ultimately show ?thesis unfolding n by simp
  qed
qed

lemma axis_private:
  fixes a w n R :: int
  assumes R: "1 \<le> R" and w: "2 * R \<le> w" and a: "0 \<le> a" and lo: "a = 0 \<or> w \<le> a"
    and le: "a + w \<le> n" and hi: "a + w = n \<or> a + 2 * w \<le> n"
  defines "hlo \<equiv> max (a - R) 0" and "hhi \<equiv> min (a + w + R) n - 1"
  shows "(if hlo \<noteq> 0 then hlo + R else hlo) = a"
    and "(if hhi \<noteq> n - 1 then hhi - R else hhi) = a + w - 1"
    and "(if a \<noteq> 0 then a + R else a) \<le> (if a + w - 1 \<noteq> n - 1 then a + w - 1 - R else a + w - 1) + 1"
proof -
  show "(if hlo \<noteq> 0 then hlo + R else hlo) = a"
  proof (cases "a = 0")
    case True
    then show ?thesis using R by (simp add: hlo_def)
  next
    case False
    then have "w \<le> a" using lo by simp
    then have "hlo = a - R" using R w by (simp add: hlo_def)
    then show ?thesis using R w \<open>w \<le> a\<close> by simp
  qed
  show "(if hhi \<noteq> n - 1 then hhi - R else hhi) = a + w - 1"
  proof (cases "a + w = n")
    case True
    then have "hhi = n - 1" using R by (simp add: hhi_def)
    then show ?thesis using True by simp
  next
    case False
    then have "a + 2 * w \<le> n" using hi by simp
    then have "hhi = a + w + R - 1" using R w by (simp add: hhi_def)
    then show ?thesis using R w \<open>a + 2 * w \<le> n\<close> by simp
  qed
  show "(if a \<noteq> 0 then a + R else a) \<le> (if a + w - 1 \<noteq> n - 1 then a + w - 1 - R else a + w - 1) + 1"
    using R w by simp
qed

lemma privateBox_wide:
  assumes "0 < n" "1 \<le> R" "0 \<le> tx" "tx < Px" "0 \<le> ty" "ty < Py"
    "n mod Px = 0" "n mod Py = 0" "2 * R \<le> n div Px" "2 * R \<le> n div Py"
  shows "privateBox n R Px Py tx ty =
           \<lparr> lo0 = tx * (n div Px), lo1 = ty * (n div Py),
             hi0 = (tx + 1) * (n div Px) - 1, hi1 = (ty + 1) * (n div Py) - 1 \<rparr>"
    and "lo0 (shrink n R (privateBox n R Px Py tx ty))
           \<le> hi0 (shrink n R (privateBox n R Px Py tx ty)) + 1"
    and "lo1 (shrink n R (privateBox n R Px Py tx ty))
           \<le> hi1 (shrink n R (privateBox n R Px Py tx ty)) + 1"
proof -
  have Px: "0 < Px" and Py: "0 < Py" using assms by auto
  have sx: "n sdiv Px = n div Px" and sy: "n sdiv Py = n div Py"
    using assms(1) Px Py by (simp_all add: sdiv_nonneg)
  note fx = tile_axis_facts [OF assms(1) assms(3) assms(4) assms(7)]
  note fy = tile_axis_facts [OF assms(1) assms(5) assms(6) assms(8)]
  note ax = axis_private [OF assms(2) assms(9) fx(1-4)]
  note ay = axis_private [OF assms(2) assms(10) fy(1-4)]
  show box: "privateBox n R Px Py tx ty =
           \<lparr> lo0 = tx * (n div Px), lo1 = ty * (n div Py),
             hi0 = (tx + 1) * (n div Px) - 1, hi1 = (ty + 1) * (n div Py) - 1 \<rparr>"
    unfolding privateBox_def tileDomain_def shrink_def sx sy fx(5) fy(5)
    by (simp only: rect.select_convs ax(1,2) ay(1,2))
  show "lo0 (shrink n R (privateBox n R Px Py tx ty))
           \<le> hi0 (shrink n R (privateBox n R Px Py tx ty)) + 1"
    unfolding box shrink_def fx(5) by (simp only: rect.select_convs ax(3))
  show "lo1 (shrink n R (privateBox n R Px Py tx ty))
           \<le> hi1 (shrink n R (privateBox n R Px Py tx ty)) + 1"
    unfolding box shrink_def fy(5) by (simp only: rect.select_convs ay(3))
qed

lemma wide_tiles_sectors_tile:
  assumes "0 < n" "1 \<le> R" "0 \<le> tx" "tx < Px" "0 \<le> ty" "ty < Py"
    "n mod Px = 0" "n mod Py = 0" "2 * R \<le> n div Px" "2 * R \<le> n div Py"
  defines "s \<equiv> tile_sectors n R Px Py tx ty"
  shows "(\<Union>dir \<in> {LEFT .. INTERIOR}. sector_points s dir) =
           points (privateBox n R Px Py tx ty)"
    and "\<forall>d \<in> {LEFT .. INTERIOR}. \<forall>d' \<in> {LEFT .. INTERIOR}.
           d \<noteq> d' \<longrightarrow> sector_points s d \<inter> sector_points s d' = {}"
    and "\<forall>dir \<in> {LEFT .. INTERIOR}. \<not> sector_exists s dir \<longrightarrow> sector_points s dir = {}"
    and "sector_exists s LEFT_UP = (sector_exists s LEFT \<and> sector_exists s UP)"
    and "sector_exists s UP_RIGHT = (sector_exists s UP \<and> sector_exists s RIGHT)"
    and "sector_exists s RIGHT_DOWN = (sector_exists s RIGHT \<and> sector_exists s DOWN)"
    and "sector_exists s DOWN_LEFT = (sector_exists s DOWN \<and> sector_exists s LEFT)"
proof -
  note fx = tile_axis_facts [OF assms(1) assms(3) assms(4) assms(7)]
  note fy = tile_axis_facts [OF assms(1) assms(5) assms(6) assms(8)]
  note pb = privateBox_wide [OF assms(1-10)]
  have b: "0 \<le> lo0 (privateBox n R Px Py tx ty)" "hi0 (privateBox n R Px Py tx ty) \<le> n - 1"
    "0 \<le> lo1 (privateBox n R Px Py tx ty)" "hi1 (privateBox n R Px Py tx ty) \<le> n - 1"
    unfolding pb(1) fx(5) fy(5) using fx(1,3) fy(1,3) by simp_all
  note T = sectors_tile_box [OF assms(2) b pb(2,3), folded tile_sectors_def s_def]
  note E = sectors_exist [OF assms(2) b, folded tile_sectors_def s_def]
  show "(\<Union>dir \<in> {LEFT .. INTERIOR}. sector_points s dir) =
           points (privateBox n R Px Py tx ty)" by (rule T(1))
  show "\<forall>d \<in> {LEFT .. INTERIOR}. \<forall>d' \<in> {LEFT .. INTERIOR}.
           d \<noteq> d' \<longrightarrow> sector_points s d \<inter> sector_points s d' = {}" by (rule T(2))
  show "\<forall>dir \<in> {LEFT .. INTERIOR}. \<not> sector_exists s dir \<longrightarrow> sector_points s dir = {}"
    by (rule E(10))
  show "sector_exists s LEFT_UP = (sector_exists s LEFT \<and> sector_exists s UP)" by (rule E(5))
  show "sector_exists s UP_RIGHT = (sector_exists s UP \<and> sector_exists s RIGHT)" by (rule E(6))
  show "sector_exists s RIGHT_DOWN = (sector_exists s RIGHT \<and> sector_exists s DOWN)" by (rule E(7))
  show "sector_exists s DOWN_LEFT = (sector_exists s DOWN \<and> sector_exists s LEFT)" by (rule E(8))
qed


lemma privateBox_in_grid:
  assumes "1 \<le> R"
  shows "0 \<le> lo0 (privateBox n R Px Py tx ty)" "hi0 (privateBox n R Px Py tx ty) \<le> n - 1"
    "0 \<le> lo1 (privateBox n R Px Py tx ty)" "hi1 (privateBox n R Px Py tx ty) \<le> n - 1"
  using assms by (auto simp: privateBox_def tileDomain_def shrink_def max_def min_def)

lemma tile_sectors_exist:
  fixes n R Px Py tx ty :: int
  assumes "1 \<le> R"
  defines "b \<equiv> privateBox n R Px Py tx ty"
  defines "s \<equiv> tile_sectors n R Px Py tx ty"
  shows "sector_exists s LEFT = (lo0 (shrink n R b) > lo0 b)"
    and "sector_exists s UP = (lo1 (shrink n R b) > lo1 b)"
    and "sector_exists s RIGHT = (hi0 (shrink n R b) < hi0 b)"
    and "sector_exists s DOWN = (hi1 (shrink n R b) < hi1 b)"
    and "sector_exists s LEFT_UP = (sector_exists s LEFT \<and> sector_exists s UP)"
    and "sector_exists s UP_RIGHT = (sector_exists s UP \<and> sector_exists s RIGHT)"
    and "sector_exists s RIGHT_DOWN = (sector_exists s RIGHT \<and> sector_exists s DOWN)"
    and "sector_exists s DOWN_LEFT = (sector_exists s DOWN \<and> sector_exists s LEFT)"
  using sectors_exist(1-8) [OF assms(1) privateBox_in_grid [OF assms(1), of n Px Py tx ty]]
  unfolding b_def s_def tile_sectors_def by blast+

text \<open>
  Claim C1, at a configuration the program accepts where the claim fails. The command
  line \<^verbatim>\<open>stencil 1 1 9\<close> on three ranks (a \<open>1 \<times> 3\<close> tile grid) with \<^verbatim>\<open>RADIUS = 2\<close>
  passes every check of \<^verbatim>\<open>top_level_task\<close>. The middle tile \<open>(0, 1)\<close> owns the rows
  \<open>3 .. 5\<close>; its sectors \<open>UP\<close> (rows \<open>3 .. 4\<close>) and \<open>DOWN\<close> (rows \<open>4 .. 5\<close>) both exist
  and share the row \<open>4\<close>, so the sectors are not pairwise disjoint.
\<close>

theorem narrow_tile_sectors_overlap:
  "read_and_test_input [''stencil'', ''1'', ''1'', ''9''] 3 2 =
     Inr \<lparr> threads = 1, iterations = 1, grid_size = 9, Num_procsx = 1, Num_procsy = 3 \<rparr> \<and>
   sector_exists (tile_sectors 9 2 1 3 0 1) UP \<and>
   sector_exists (tile_sectors 9 2 1 3 0 1) DOWN \<and>
   (0, 4) \<in> sector_points (tile_sectors 9 2 1 3 0 1) UP \<inter>
             sector_points (tile_sectors 9 2 1 3 0 1) DOWN"
  by (simp add: tile_sectors_narrow sector_exists_def sector_points_def domain_points_def
      points_def in_rect_def boundary_defs read_and_test_input_def num_numa_nodes_def
      atoi_examples processor_grid_examples signed_modulo_int_def)

subsection \<open>The balanced split\<close>

text \<open>
  What \<^verbatim>\<open>createBalancedPartition\<close> does for at least one thread: with fewer than
  two rows per thread an assertion fails (the last block would be a single row, or
  empty); otherwise the blocks are those of the balanced split.
\<close>

lemma Ball_upto_first:
  "c \<le> m \<Longrightarrow> (\<forall>k \<in> {c .. m}. P k) = (P c \<and> (\<forall>k \<in> {c + 1 .. m}. P k))" for c m :: int
proof -
  assume "c \<le> m"
  then have "{c .. m} = insert c {c + 1 .. m}" by auto
  then show ?thesis by simp
qed

lemma balanced_loop_char:
  fixes off rm s0 :: int
  defines "S \<equiv> \<lambda>k. s0 + k * off + min k rm"
  shows "balanced_loop r off rm [c .. m] (S c) =
           (if \<forall>k \<in> {c .. m}. S k < hi1 r \<and> S (k + 1) - 1 \<le> hi1 r
            then Inr (map (\<lambda>k. \<lparr> lo0 = lo0 r, lo1 = S k, hi0 = hi0 r, hi1 = S (k + 1) - 1 \<rparr>)
                       [c .. m])
            else Inl AssertionFailure)"
proof (induction "nat (m + 1 - c)" arbitrary: c)
  case 0
  then have "m < c" by simp
  then show ?case by simp
next
  case (Suc n)
  then have le: "c \<le> m" and n: "n = nat (m + 1 - (c + 1))" by simp_all
  have w: "S c + (if c < rm then off + 1 else off) = S (c + 1)"
    by (simp add: S_def algebra_simps min_def)
  note IH = Suc.hyps(1) [OF n]
  show ?case
    unfolding upto_rec1 [OF le] Ball_upto_first [OF le]
    by (simp add: Let_def w IH)
qed


lemma balanced_cond:
  fixes n size lo :: int
  assumes n: "1 \<le> n" and size: "0 \<le> size"
  defines "off \<equiv> size div n" and "rm \<equiv> size mod n"
  defines "S \<equiv> \<lambda>k. lo + k * off + min k rm"
  shows "(\<forall>k \<in> {0 .. n - 1}. S k < lo + size - 1 \<and> S (k + 1) - 1 \<le> lo + size - 1) =
           (2 * n \<le> size)"
proof
  have dec: "size = n * off + rm" unfolding off_def rm_def by simp
  have rm: "0 \<le> rm" "rm < n" using n unfolding rm_def by simp_all
  assume all: "\<forall>k \<in> {0 .. n - 1}. S k < lo + size - 1 \<and> S (k + 1) - 1 \<le> lo + size - 1"
  have "n - 1 \<in> {0 .. n - 1}" using n by simp
  with all have "S (n - 1) < lo + size - 1" by blast
  moreover have "min (n - 1) rm = rm" using rm by simp
  ultimately have "(n - 1) * off + rm < n * off + rm - 1"
    unfolding S_def dec by simp
  then have "2 \<le> off" by (simp add: algebra_simps)
  then have "n * 2 \<le> n * off" using n by (intro mult_left_mono) simp_all
  then show "2 * n \<le> size" using dec rm by linarith
next
  have dec: "size = n * off + rm" unfolding off_def rm_def by simp
  have rm: "0 \<le> rm" "rm < n" using n unfolding rm_def by simp_all
  assume big: "2 * n \<le> size"
  have off: "2 \<le> off"
  proof (rule ccontr)
    assume "\<not> 2 \<le> off"
    then have "off \<le> 1" by simp
    then have "n * off \<le> n * 1" using n by (intro mult_left_mono) simp_all
    with dec rm big show False by linarith
  qed
  show "\<forall>k \<in> {0 .. n - 1}. S k < lo + size - 1 \<and> S (k + 1) - 1 \<le> lo + size - 1"
  proof
    fix k assume "k \<in> {0 .. n - 1}"
    then have k: "0 \<le> k" "k + 1 \<le> n" by simp_all
    have "0 \<le> (n - (k + 1)) * off" using k off by (intro mult_nonneg_nonneg) simp_all
    then have p: "(k + 1) * off \<le> n * off" by (simp add: algebra_simps)
    have q: "(k + 1) * off = k * off + off" by (simp add: algebra_simps)
    have a: "S (k + 1) \<le> lo + size" using p rm dec by (simp add: S_def min_def)
    have b: "S k + 2 \<le> S (k + 1)" using q off by (simp add: S_def min_def)
    show "S k < lo + size - 1 \<and> S (k + 1) - 1 \<le> lo + size - 1" using a b by simp
  qed
qed

lemma createBalancedPartition_char:
  assumes n: "1 \<le> numThreads"
  shows "createBalancedPartition r numThreads =
           (if 2 * numThreads \<le> widthY r
            then Inr (map (balanced_block r numThreads) [0 .. numThreads - 1])
            else Inl AssertionFailure)"
proof (cases "0 \<le> widthY r")
  case False
  then have "\<not> lo1 r < hi1 r" by (simp add: widthY_def)
  moreover have "[0 .. numThreads - 1] = 0 # [0 + 1 .. numThreads - 1]"
    using n by (intro upto_rec1) simp
  moreover have "\<not> 2 * numThreads \<le> widthY r" using False n by simp
  ultimately show ?thesis using n by (simp add: createBalancedPartition_def Let_def)
next
  case True
  define size where "size = widthY r"
  define off where "off = size div numThreads"
  define rm where "rm = size mod numThreads"
  have s: "hi1 r - lo1 r + 1 = size" by (simp add: size_def widthY_def)
  have hi: "hi1 r = lo1 r + size - 1" by (simp add: size_def widthY_def)
  have sd: "size sdiv numThreads = off" "size smod numThreads = rm"
    using True n by (simp_all add: size_def off_def rm_def sdiv_nonneg smod_nonneg)
  have rm: "0 \<le> rm" using n by (simp add: rm_def)
  then have start: "lo1 r = lo1 r + 0 * off + min 0 rm" by simp
  have blk: "(\<lambda>k. \<lparr> lo0 = lo0 r, lo1 = lo1 r + k * off + min k rm, hi0 = hi0 r,
                  hi1 = lo1 r + (k + 1) * off + min (k + 1) rm - 1 \<rparr>) =
               balanced_block r numThreads"
    by (simp add: fun_eq_iff balanced_block_def block_start_def off_def rm_def size_def)
  have "createBalancedPartition r numThreads =
          balanced_loop r off rm [0 .. numThreads - 1] (lo1 r + 0 * off + min 0 rm)"
    using n unfolding createBalancedPartition_def s Let_def sd start [symmetric] by simp
  also note balanced_loop_char [of r off rm 0 "numThreads - 1" "lo1 r"]
  finally show ?thesis
    unfolding hi blk
    using balanced_cond [OF n, of size "lo1 r"] True
    unfolding size_def [symmetric] off_def [symmetric] rm_def [symmetric]
    by simp
qed


lemma balanced_layout:
  assumes n: "1 \<le> numThreads" and big: "2 * numThreads \<le> widthY r"
  shows "createBalancedPartition r numThreads =
           Inr (map (balanced_block r numThreads) [0 .. numThreads - 1])"
    and "widthY (balanced_block r numThreads k) =
           widthY r div numThreads + (if k < widthY r mod numThreads then 1 else 0)"
    and "lo1 (balanced_block r numThreads 0) = lo1 r"
    and "hi1 (balanced_block r numThreads (numThreads - 1)) = hi1 r"
    and "lo1 (balanced_block r numThreads (k + 1)) = hi1 (balanced_block r numThreads k) + 1"
proof -
  let ?off = "widthY r div numThreads" and ?rm = "widthY r mod numThreads"
  have rm: "0 \<le> ?rm" "?rm < numThreads" using n by simp_all
  have dec: "numThreads * ?off + ?rm = widthY r" by simp
  show "createBalancedPartition r numThreads =
           Inr (map (balanced_block r numThreads) [0 .. numThreads - 1])"
    using createBalancedPartition_char [OF n] big by simp
  show "widthY (balanced_block r numThreads k) = ?off + (if k < ?rm then 1 else 0)"
    by (simp add: widthY_def balanced_block_def block_start_def algebra_simps min_def)
  show "lo1 (balanced_block r numThreads 0) = lo1 r"
    using rm by (simp add: balanced_block_def block_start_def)
  have "block_start r numThreads numThreads = lo1 r + (numThreads * ?off + ?rm)"
    using rm by (simp add: block_start_def)
  then have "block_start r numThreads numThreads = hi1 r + 1"
    unfolding dec by (simp add: widthY_def)
  then show "hi1 (balanced_block r numThreads (numThreads - 1)) = hi1 r"
    by (simp add: balanced_block_def)
  show "lo1 (balanced_block r numThreads (k + 1)) = hi1 (balanced_block r numThreads k) + 1"
    by (simp add: balanced_block_def)
qed


lemma privateBox_single_tile:
  "privateBox 5 2 1 1 0 0 = \<lparr> lo0 = 0, lo1 = 0, hi0 = 4, hi1 = 4 \<rparr>"
  by (simp add: privateBox_def tileDomain_def shrink_def sdiv_nonneg)

text \<open>
  Claim C2, at an input where the program produces no blocks. The command line
  \<^verbatim>\<open>stencil 3 1 5\<close> on one rank is accepted. The private region of the single tile
  of the \<open>5 \<times> 5\<close> grid has \<open>5\<close> rows; with \<open>3\<close> threads the claim gives the widths
  \<open>2, 2, 1\<close>. The third block starts at row \<open>4\<close>, the last row of the region, and
  \<^verbatim>\<open>assert(startY < rect.hi[1])\<close> fails.
\<close>

theorem balanced_split_last_single_row:
  "read_and_test_input [''stencil'', ''3'', ''1'', ''5''] 1 2 =
     Inr \<lparr> threads = 3, iterations = 1, grid_size = 5, Num_procsx = 1, Num_procsy = 1 \<rparr> \<and>
   createBalancedPartition (privateBox 5 2 1 1 0 0) 3 = Inl AssertionFailure"
  by (simp add: privateBox_single_tile createBalancedPartition_def sdiv_nonneg smod_nonneg
      upto.simps read_and_test_input_def num_numa_nodes_def
      atoi_examples processor_grid_examples signed_modulo_int_def)

text \<open>
  Claim C3, at an input with \<open>workers \<le> size\<close> where an assertion fails. The command
  line \<^verbatim>\<open>stencil 5 1 5\<close> on one rank is accepted. With \<open>5\<close> rows and \<open>5\<close> threads every
  block is one row; the last block starts at the last row and
  \<^verbatim>\<open>assert(startY < rect.hi[1])\<close> fails.
\<close>

theorem balanced_split_workers_eq_size:
  "read_and_test_input [''stencil'', ''5'', ''1'', ''5''] 1 2 =
     Inr \<lparr> threads = 5, iterations = 1, grid_size = 5, Num_procsx = 1, Num_procsy = 1 \<rparr> \<and>
   createBalancedPartition (privateBox 5 2 1 1 0 0) 5 = Inl AssertionFailure"
  by (simp add: privateBox_single_tile createBalancedPartition_def sdiv_nonneg smod_nonneg
      upto.simps read_and_test_input_def num_numa_nodes_def
      atoi_examples processor_grid_examples signed_modulo_int_def)

subsection \<open>The input checks of \<^verbatim>\<open>top_level_task\<close>\<close>



lemma procs_loop_pos:
  "0 < k \<Longrightarrow> 1 \<le> fst (procs_loop r k) \<and> fst (procs_loop r k) \<le> int k \<and>
     r smod fst (procs_loop r k) = 0 \<and> snd (procs_loop r k) = r sdiv fst (procs_loop r k)"
proof (induction k)
  case 0
  then show ?case by simp
next
  case (Suc k)
  show ?case
  proof (cases "k = 0")
    case True
    then show ?thesis by (simp add: signed_modulo_int_def)
  next
    case False
    with Suc show ?thesis by auto
  qed
qed

lemma isqrt_pos: "0 < n \<Longrightarrow> 0 < isqrt n"
proof (induction n)
  case 0
  then show ?case by simp
next
  case (Suc n)
  then show ?case by (cases "n = 0") (auto simp: Let_def)
qed

lemma isqrt_bounds: "isqrt n * isqrt n \<le> n \<and> n < Suc (isqrt n) * Suc (isqrt n)"
  by (induction n) (auto simp: Let_def)

lemma processor_grid_pos:
  assumes "1 \<le> r"
  shows "1 \<le> fst (processor_grid r)" "1 \<le> snd (processor_grid r)"
        "fst (processor_grid r) * snd (processor_grid r) = r"
proof -
  let ?k = "isqrt (nat (r + 1))"
  have k: "0 < ?k" using assms by (intro isqrt_pos) simp
  note l = procs_loop_pos [OF k, of r]
  let ?x = "fst (processor_grid r)"
  have x: "1 \<le> ?x" "r smod ?x = 0" "snd (processor_grid r) = r sdiv ?x"
    using l by (simp_all add: processor_grid_def)
  show "1 \<le> ?x" by fact
  have m: "r mod ?x = 0" using x assms by (simp add: smod_nonneg)
  have d: "snd (processor_grid r) = r div ?x" using x assms by (simp add: sdiv_nonneg)
  show "?x * snd (processor_grid r) = r" using m d by auto
  then show "1 \<le> snd (processor_grid r)"
    using assms x(1) by (smt (verit) mult_nonneg_nonpos)
qed

text \<open>
  Claim C9. The run ends with a failure exactly when one of these holds: fewer than
  three arguments; \<open>threads \<le> 0\<close>; \<open>iterations < 1\<close>; \<open>dimension \<le> 0\<close>; the dimension
  is not divisible by a factor of the computed tile grid; \<^verbatim>\<open>RADIUS < 1\<close>;
  \<open>2 * RADIUS + 1 > dimension\<close>; or the accumulated error is at least \<open>epsilon\<close>. In
  every other case the run passes all the checks (the result \<open>Inr ()\<close>). The failure
  is \<^verbatim>\<open>exit(EXIT_FAILURE)\<close> whenever the number of ranks is positive; with no ranks
  the second tile-grid factor is \<open>0\<close> and the program divides by it.
\<close>

theorem cli_validation:
  fixes epsilon :: "'a::{zero,plus,linorder}"
  shows
  "((\<exists>e. top_level_task argv gasnet_nodes RADIUS epsilon shard_abserr = Inl e) =
      (length argv < 4 \<or> atoi (argv ! 1) \<le> 0 \<or> atoi (argv ! 2) < 1 \<or> atoi (argv ! 3) \<le> 0 \<or>
       atoi (argv ! 3) smod fst (processor_grid (gasnet_nodes * num_numa_nodes argv)) \<noteq> 0 \<or>
       atoi (argv ! 3) smod snd (processor_grid (gasnet_nodes * num_numa_nodes argv)) \<noteq> 0 \<or>
       RADIUS < 1 \<or> 2 * RADIUS + 1 > atoi (argv ! 3) \<or>
       epsilon \<le> sum_tiles
          (shard_abserr \<lparr> threads = atoi (argv ! 1), iterations = atoi (argv ! 2),
               grid_size = atoi (argv ! 3),
               Num_procsx = fst (processor_grid (gasnet_nodes * num_numa_nodes argv)),
               Num_procsy = snd (processor_grid (gasnet_nodes * num_numa_nodes argv)) \<rparr>)
          (fst (processor_grid (gasnet_nodes * num_numa_nodes argv)))
          (snd (processor_grid (gasnet_nodes * num_numa_nodes argv))))) \<and>
   ((top_level_task argv gasnet_nodes RADIUS epsilon shard_abserr = Inr ()) =
      (\<not> (\<exists>e. top_level_task argv gasnet_nodes RADIUS epsilon shard_abserr = Inl e))) \<and>
   (1 \<le> gasnet_nodes * num_numa_nodes argv \<longrightarrow>
      top_level_task argv gasnet_nodes RADIUS epsilon shard_abserr \<noteq> Inl DivisionByZero)"
proof -
  let ?g = "processor_grid (gasnet_nodes * num_numa_nodes argv)"
  have z: "atoi (argv ! 3) smod 0 = atoi (argv ! 3)" by simp
  have A: "(top_level_task argv gasnet_nodes RADIUS epsilon shard_abserr = Inr ()) =
      (\<not> (\<exists>e. top_level_task argv gasnet_nodes RADIUS epsilon shard_abserr = Inl e))"
    by (cases "top_level_task argv gasnet_nodes RADIUS epsilon shard_abserr") auto
  have B: "1 \<le> gasnet_nodes * num_numa_nodes argv \<longrightarrow>
      top_level_task argv gasnet_nodes RADIUS epsilon shard_abserr \<noteq> Inl DivisionByZero"
    using processor_grid_pos(1,2) [of "gasnet_nodes * num_numa_nodes argv"]
    by (auto simp: top_level_task_def read_and_test_input_def validate_def Let_def
          split: sum.splits if_splits)
  show ?thesis
    apply (intro conjI A B)
    apply (cases "fst ?g = 0"; cases "snd ?g = 0")
    apply (auto simp: top_level_task_def read_and_test_input_def validate_def Let_def not_less
          split: sum.splits if_splits)
    done
qed

theorem cli_validation_witness:
  "top_level_task [''stencil'', ''4'', ''10'', ''64''] 4 2 EPSILON (\<lambda>cfg tile. 0) = Inr () \<and>
   (\<exists>e. top_level_task [''stencil'', ''4'', ''10'', ''63''] 4 2 EPSILON (\<lambda>cfg tile. 0) = Inl e)"
proof -
  have g: "processor_grid 4 = (2, 2)"
    by (simp add: processor_grid_def numeral_eq_Suc signed_modulo_int_def signed_divide_int_def)
  have s: "sum_tiles (\<lambda>tile. 0::real) 2 2 = 0"
    by (simp add: sum_tiles_def upto.simps)
  have n: "num_numa_nodes [''stencil'', ''4'', ''10'', ''64''] = 1"
          "num_numa_nodes [''stencil'', ''4'', ''10'', ''63''] = 1"
    by (simp_all add: num_numa_nodes_def)
  have a: "atoi ''4'' = 4" "atoi ''10'' = 10" "atoi ''64'' = 64" "atoi ''63'' = 63"
    by (simp_all add: atoi_def isspace_def isdigit_def digit_value_def)
  have e: "\<not> EPSILON \<le> 0" by (simp add: EPSILON_def)
  note T1 = cli_validation [of "[''stencil'', ''4'', ''10'', ''64'']" 4 2 EPSILON "\<lambda>cfg tile. 0"]
  note T2 = cli_validation [of "[''stencil'', ''4'', ''10'', ''63'']" 4 2 EPSILON "\<lambda>cfg tile. 0"]
  have "top_level_task [''stencil'', ''4'', ''10'', ''64''] 4 2 EPSILON (\<lambda>cfg tile. 0) = Inr ()"
    using T1 e by (simp add: n g s a signed_modulo_int_def)
  moreover
  have "\<exists>e. top_level_task [''stencil'', ''4'', ''10'', ''63''] 4 2 EPSILON (\<lambda>cfg tile. 0) = Inl e"
    using T2 by (simp add: n g s a signed_modulo_int_def)
  ultimately show ?thesis by simp
qed




lemma num_numa_nodes_take: "num_numa_nodes (take 4 argv) = 1"
  by (simp add: num_numa_nodes_def)

text \<open>
  Claim C10. A fifth command-line word sets the number of NUMA nodes only when its
  first character is one of \<open>0 .. 9\<close>; then the number is \<^verbatim>\<open>atoi\<close> of the word. Any
  other word (one that starts with \<open>-\<close>, for instance) leaves the number at \<open>1\<close>, and
  the input checks give the result they give without the word: no error comes of it.
\<close>

theorem numa_argument:
  "(length argv > 4 \<and> starts_with_digit (argv ! 4) \<longrightarrow>
      num_numa_nodes argv = atoi (argv ! 4)) \<and>
   (\<not> (length argv > 4 \<and> starts_with_digit (argv ! 4)) \<longrightarrow>
      num_numa_nodes argv = 1 \<and>
      read_and_test_input argv gasnet_nodes RADIUS =
        read_and_test_input (take 4 argv) gasnet_nodes RADIUS) \<and>
   (\<forall>cs. \<not> starts_with_digit (CHR ''-'' # cs)) \<and>
   starts_with_digit s = (s \<noteq> [] \<and> hd s \<in> set ''0123456789'')"
proof -
  have one: "\<not> (length argv > 4 \<and> starts_with_digit (argv ! 4)) \<Longrightarrow> num_numa_nodes argv = 1"
    by (auto simp: num_numa_nodes_def)
  have same: "read_and_test_input argv gasnet_nodes RADIUS =
        read_and_test_input (take 4 argv) gasnet_nodes RADIUS"
    if "\<not> (length argv > 4 \<and> starts_with_digit (argv ! 4))"
  proof (cases "length argv < 4")
    case True
    then show ?thesis by simp
  next
    case False
    then have l: "length (take 4 argv) = 4" by simp
    have i: "take 4 argv ! 1 = argv ! 1" "take 4 argv ! 2 = argv ! 2" "take 4 argv ! 3 = argv ! 3"
      by simp_all
    show ?thesis
      unfolding read_and_test_input_def l i num_numa_nodes_take one [OF that] using False
      by simp
  qed
  have dig: "starts_with_digit s = (s \<noteq> [] \<and> hd s \<in> set ''0123456789'')"
  proof (cases s)
    case Nil
    then show ?thesis by (simp add: starts_with_digit_def)
  next
    case (Cons c cs)
    have "isdigit c = (c \<in> set ''0123456789'')"
    proof (cases c)
      case (Char b0 b1 b2 b3 b4 b5 b6 b7)
      then show ?thesis
        by (cases b0; cases b1; cases b2; cases b3; cases b4; cases b5; cases b6; cases b7)
           (simp_all add: isdigit_def)
    qed
    with Cons show ?thesis by (simp add: starts_with_digit_def)
  qed
  show ?thesis
    using one same dig by (auto simp: num_numa_nodes_def starts_with_digit_def isdigit_def)
qed

theorem numa_argument_witness:
  "num_numa_nodes [''stencil'', ''4'', ''10'', ''64'', ''-2''] = 1 \<and>
   read_and_test_input [''stencil'', ''4'', ''10'', ''64'', ''-2''] 4 2 =
     read_and_test_input [''stencil'', ''4'', ''10'', ''64''] 4 2 \<and>
   num_numa_nodes [''stencil'', ''4'', ''10'', ''64'', ''2''] = 2"
proof -
  have a: "atoi ''2'' = 2"
    by (simp add: atoi_def isspace_def isdigit_def digit_value_def)
  have d: "\<not> starts_with_digit ''-2''" "starts_with_digit ''2''"
    by (simp_all add: starts_with_digit_def isdigit_def)
  from numa_argument [of "[''stencil'', ''4'', ''10'', ''64'', ''-2'']" 4 2] d
  have "num_numa_nodes [''stencil'', ''4'', ''10'', ''64'', ''-2''] = 1 \<and>
   read_and_test_input [''stencil'', ''4'', ''10'', ''64'', ''-2''] 4 2 =
     read_and_test_input [''stencil'', ''4'', ''10'', ''64''] 4 2"
    by simp
  moreover
  from numa_argument [of "[''stencil'', ''4'', ''10'', ''64'', ''2'']"] d a
  have "num_numa_nodes [''stencil'', ''4'', ''10'', ''64'', ''2''] = 2"
    by simp
  ultimately show ?thesis by simp
qed

subsection \<open>The validation of the result\<close>


lemma fold_check_row:
  "fold (\<lambda>i abserr. check_cell n R e ABS out (x0 + i) y abserr) xs a =
     foldl (\<lambda>abserr c. abserr + ABS (out c - e)) a
       (filter (inner_cell n R) (map (\<lambda>i. (x0 + i, y)) xs))"
  by (induction xs arbitrary: a) (auto simp: check_cell_def inner_cell_def)

lemma fold_check_rows:
  "fold (\<lambda>j abserr. foldl g abserr (filter P (row j))) ys a =
     foldl g a (filter P (concat (map row ys)))"
  by (induction ys arbitrary: a) auto

lemma check_task_cells:
  "check_task r n R DTYPE K ABS out =
     foldl (\<lambda>abserr c. abserr + ABS (out c - DTYPE K * (COEFX + COEFY))) 0
       (filter (inner_cell n R) (cells r))"
  unfolding check_task_def Let_def fold_check_row norm_value_def cells_def
  by (simp add: fold_check_rows)

lemma set_cells: "set (cells r) = points r"
proof (rule set_eqI)
  fix p :: "int \<times> int"
  obtain x y where p: "p = (x, y)" by (cases p)
  show "p \<in> set (cells r) \<longleftrightarrow> p \<in> points r"
  proof
    assume "p \<in> set (cells r)"
    then show "p \<in> points r"
      by (auto simp: cells_def points_def in_rect_def)
  next
    assume "p \<in> points r"
    then have b: "0 \<le> x - lo0 r" "x - lo0 r \<le> hi0 r - lo0 r" "0 \<le> y - lo1 r"
      "y - lo1 r \<le> hi1 r - lo1 r"
      by (auto simp: p points_def in_rect_def)
    have "(x, y) \<in> (\<lambda>i. (lo0 r + i, lo1 r + (y - lo1 r))) ` {0 .. hi0 r - lo0 r}"
      using b by (intro image_eqI [of _ _ "x - lo0 r"]) simp_all
    then show "p \<in> set (cells r)"
      unfolding p cells_def using b by (auto intro!: bexI [of _ "y - lo1 r"])
  qed
qed

lemma fold_plus_foldl: "fold (\<lambda>b a. a + f b) xs a = foldl (+) a (map f xs)"
  by (induction xs arbitrary: a) auto

lemma sum_tiles_foldl: "sum_tiles sa Px Py = foldl (+) 0 (map sa (tiles Px Py))"
proof -
  have row: "fold (\<lambda>tileX a. a + sa (tileX, y)) xs a =
      foldl (+) a (map sa (map (\<lambda>tileX. (tileX, y)) xs))" for y xs a
    by (induction xs arbitrary: a) auto
  have rows: "fold (\<lambda>y a. foldl (+) a (h y)) ys a =
      foldl (+) a (concat (map h ys))" for h :: "int \<Rightarrow> 'a list" and ys a
    by (induction ys arbitrary: a) auto
  show ?thesis
    unfolding sum_tiles_def row rows tiles_def by (simp add: map_concat comp_def)
qed

text \<open>
  Claim C5. For an accepted command line: one \<^verbatim>\<open>check_task\<close> adds up, in the order of
  its loops, the deviation \<^verbatim>\<open>ABS(value - norm)\<close> of the output from
  \<open>iterations * (COEFX + COEFY)\<close> over exactly those cells of its block with
  \<open>RADIUS \<le> x < n - RADIUS\<close> and \<open>RADIUS \<le> y < n - RADIUS\<close>; a shard adds up the results
  of the blocks of its private region; \<^verbatim>\<open>top_level_task\<close> adds up the shards' results
  over all tiles, and the run succeeds exactly when this total is below \<open>epsilon\<close> and
  exits with a failure otherwise. (The program is built without \<^verbatim>\<open>NO_TASK_BODY\<close>.)
\<close>

theorem validation_check:
  assumes "read_and_test_input argv gasnet_nodes R = Inr cfg"
  shows
    "check_task r (grid_size cfg) R DTYPE (iterations cfg) ABS out =
       foldl (\<lambda>abserr c. abserr + ABS (out c - DTYPE (iterations cfg) * (COEFX + COEFY))) 0
         (filter (inner_cell (grid_size cfg) R) (cells r)) \<and>
     set (cells r) = points r \<and>
     spmd_check p (threads cfg) (grid_size cfg) R DTYPE (iterations cfg) ABS out =
       (case createBalancedPartition p (threads cfg) of
          Inl e \<Rightarrow> Inl e
        | Inr blocks \<Rightarrow>
            Inr (foldl (+) 0
                  (map (\<lambda>b. check_task b (grid_size cfg) R DTYPE (iterations cfg) ABS out)
                     blocks))) \<and>
     sum_tiles (shard_abserr cfg) (Num_procsx cfg) (Num_procsy cfg) =
       foldl (+) 0 (map (shard_abserr cfg) (tiles (Num_procsx cfg) (Num_procsy cfg))) \<and>
     (top_level_task argv gasnet_nodes R epsilon shard_abserr = Inr ()) =
       (sum_tiles (shard_abserr cfg) (Num_procsx cfg) (Num_procsy cfg) < epsilon) \<and>
     (top_level_task argv gasnet_nodes R epsilon shard_abserr = Inl ExitFailure) =
       (\<not> sum_tiles (shard_abserr cfg) (Num_procsx cfg) (Num_procsy cfg) < epsilon)"
  using assms
  by (simp add: check_task_cells set_cells spmd_check_def fold_plus_foldl sum_tiles_foldl
      top_level_task_def validate_def split: sum.splits)


theorem validation_check_witness:
  "read_and_test_input [''stencil'', ''4'', ''10'', ''64''] 4 2 =
     Inr \<lparr> threads = 4, iterations = 10, grid_size = 64, Num_procsx = 2, Num_procsy = 2 \<rparr> \<and>
   check_task \<lparr> lo0 = 0, lo1 = 0, hi0 = 2, hi1 = 2 \<rparr> 64 2 real_of_int 10 abs (\<lambda>c. 21) = 1 \<and>
   top_level_task [''stencil'', ''4'', ''10'', ''64''] 4 2 EPSILON (\<lambda>cfg tile. 0) = Inr () \<and>
   top_level_task [''stencil'', ''4'', ''10'', ''64''] 4 2 EPSILON (\<lambda>cfg tile. 1) =
     Inl ExitFailure"
proof -
  let ?argv = "[''stencil'', ''4'', ''10'', ''64'']"
  let ?cfg = "\<lparr> threads = 4, iterations = 10, grid_size = 64, Num_procsx = 2, Num_procsy = 2 \<rparr>"
  let ?r = "\<lparr> lo0 = 0, lo1 = 0, hi0 = 2, hi1 = 2 \<rparr>"
  have g: "processor_grid 4 = (2, 2)"
    by (simp add: processor_grid_def numeral_eq_Suc signed_modulo_int_def signed_divide_int_def)
  have a: "atoi ''4'' = 4" "atoi ''10'' = 10" "atoi ''64'' = 64"
    by (simp_all add: atoi_def isspace_def isdigit_def digit_value_def)
  have cfg: "read_and_test_input ?argv 4 2 = Inr ?cfg"
    by (simp add: read_and_test_input_def num_numa_nodes_def a g signed_modulo_int_def)
  have c: "filter (inner_cell 64 2) (cells ?r) = [(2, 2)]"
    by (simp add: cells_def upto.simps inner_cell_def)
  have t: "tiles 2 2 = [(0, 0), (1, 0), (0, 1), (1, 1)]"
    by (simp add: tiles_def upto.simps)
  note T0 = validation_check [OF cfg, of ?r real_of_int abs "\<lambda>c. 21" ?r "\<lambda>cfg tile. 0" EPSILON]
  note T1 = validation_check [OF cfg, of ?r real_of_int abs "\<lambda>c. 21" ?r "\<lambda>cfg tile. 1" EPSILON]
  have "check_task ?r 64 2 real_of_int 10 abs (\<lambda>c. 21) = 1"
    using T0 by (simp add: c COEFX_def COEFY_def)
  moreover have "top_level_task ?argv 4 2 EPSILON (\<lambda>cfg tile. 0) = Inr ()"
    using T0 by (simp add: t EPSILON_def)
  moreover have "top_level_task ?argv 4 2 EPSILON (\<lambda>cfg tile. 1) = Inl ExitFailure"
    using T1 by (simp add: t EPSILON_def)
  ultimately show ?thesis using cfg by simp
qed

subsection \<open>The placement of the shards\<close>



lemma add_processor_inv:
  assumes "mapper_inv m ps" "p \<notin> ps" "add_processor f p m = Inr m'"
  shows "mapper_inv m' (insert p ps)"
proof -
  let ?node = "address_space p"
  from assms(3) have m': "proc_map m' = (proc_map m)(?node := proc_map m ?node @ [p])"
    "num_nodes m' = max (num_nodes m) (?node + 1)"
    by (auto simp: add_processor_def Let_def split: if_splits)
  from assms(1) have inv: "\<And>k. num_nodes m \<le> k \<Longrightarrow> proc_map m k = []"
    "\<And>k. distinct (proc_map m k)" "\<And>k. set (proc_map m k) \<subseteq> ps"
    "\<And>k q. q \<in> set (proc_map m k) \<Longrightarrow> address_space q = k"
    unfolding mapper_inv_def by blast+
  have new: "p \<notin> set (proc_map m ?node)" using inv(3) assms(2) by blast
  have 1: "proc_map m' k = []" if "num_nodes m' \<le> k" for k
    using that inv(1) [of k] by (simp add: m')
  have 2: "distinct (proc_map m' k)" for k
    using inv(2) [of k] inv(2) [of ?node] new by (simp add: m')
  have 3: "set (proc_map m' k) \<subseteq> insert p ps" for k
    using inv(3) [of k] inv(3) [of ?node] by (auto simp: m')
  have 4: "address_space q = k" if "q \<in> set (proc_map m' k)" for k q
    using that inv(4) [of q k] by (cases "k = ?node") (auto simp: m' dest: inv(4))
  show ?thesis unfolding mapper_inv_def using 1 2 3 4 by blast
qed

lemma add_processors_inv:
  "mapper_inv m ps \<Longrightarrow> distinct qs \<Longrightarrow> set qs \<inter> ps = {} \<Longrightarrow>
   add_processors f qs m = Inr m' \<Longrightarrow> mapper_inv m' (ps \<union> set qs)"
proof (induction qs arbitrary: m ps)
  case Nil
  then show ?case by simp
next
  case (Cons q qs)
  from Cons.prems(4) obtain m1 where m1: "add_processor f q m = Inr m1"
    and rest: "add_processors f qs m1 = Inr m'"
    by (auto split: sum.splits)
  have "mapper_inv m1 (insert q ps)"
    using add_processor_inv [OF Cons.prems(1) _ m1] Cons.prems(3) by auto
  from Cons.IH [OF this _ _ rest] Cons.prems(2,3)
  show ?case by auto
qed

lemma StencilMapper_inv:
  assumes "StencilMapper f all_procs = Inr m" "distinct all_procs"
  shows "mapper_inv m (set all_procs)"
proof -
  have "mapper_inv \<lparr> proc_map = (\<lambda>node. []), all_sysmems = (\<lambda>p. NO_MEMORY), num_nodes = 0 \<rparr> {}"
    by (simp add: mapper_inv_def)
  from add_processors_inv [OF this assms(2) _ assms(1) [unfolded StencilMapper_def]]
  show ?thesis by simp
qed




lemma target_proc_map_task [simp]: "target_proc (map_task m t) = target_proc t"
  by (simp add: map_task_def)

lemma assign_shards_Inr:
  "0 < spn \<Longrightarrow>
     \<exists>ts'. assign_shards beyond m spn i ts = Inr ts' \<and> length ts' = length ts \<and>
       (\<forall>j < length ts. target_proc (ts' ! j) =
          read_proc beyond m ((i + j) div spn) ((i + j) mod spn))"
proof (induction ts arbitrary: i)
  case Nil
  then show ?case by simp
next
  case (Cons t ts)
  from Cons.IH [OF Cons.prems, of "Suc i"] obtain ts1
    where rest: "assign_shards beyond m spn (Suc i) ts = Inr ts1"
      and len: "length ts1 = length ts"
      and IH: "\<forall>j < length ts. target_proc (ts1 ! j) =
                 read_proc beyond m ((Suc i + j) div spn) ((Suc i + j) mod spn)"
    by blast
  define t' where "t' = map_task m (t\<lparr> target_proc := read_proc beyond m (i div spn) (i mod spn) \<rparr>)"
  have eq: "assign_shards beyond m spn i (t # ts) = Inr (t' # ts1)"
    using Cons.prems rest by (simp add: t'_def)
  have len': "length (t' # ts1) = length (t # ts)" using len by simp
  have step: "target_proc ((t' # ts1) ! j) =
                read_proc beyond m ((i + j) div spn) ((i + j) mod spn)"
    if j: "j < length (t # ts)" for j
  proof (cases j)
    case 0
    then show ?thesis by (simp add: t'_def)
  next
    case (Suc j')
    then have "j' < length ts" using j by simp
    with IH have "target_proc (ts1 ! j') =
        read_proc beyond m ((Suc i + j') div spn) ((Suc i + j') mod spn)"
      by blast
    then show ?thesis using Suc by simp
  qed
  show ?case using eq len' step by blast
qed

text \<open>
  The loop over the shards returns whenever there are at least as many shards as
  nodes, whether or not the number of nodes divides the number of shards and however
  many processors a node has; its only failure is a division by zero.
\<close>

lemma shards_return:
  assumes "0 < num_nodes m" "num_nodes m \<le> length tasks"
  shows "\<exists>tasks'. map_must_epoch_shards beyond m tasks = Inr tasks' \<and>
           length tasks' = length tasks \<and>
           (\<forall>i < length tasks. target_proc (tasks' ! i) =
              read_proc beyond m (i div (length tasks div num_nodes m))
                (i mod (length tasks div num_nodes m)))"
proof -
  have "0 < length tasks div num_nodes m"
    using assms by (simp add: div_greater_zero_iff)
  from assign_shards_Inr [OF this, of beyond m 0 tasks] show ?thesis
    using assms(1) by (simp add: map_must_epoch_shards_def)
qed

lemma assign_shards_Inl:
  "assign_shards beyond m spn i ts = Inl e \<Longrightarrow> e = DivisionByZero \<and> spn = 0 \<and> ts \<noteq> []"
proof (cases "spn = 0")
  case True
  assume "assign_shards beyond m spn i ts = Inl e"
  then show ?thesis using True by (cases ts) simp_all
next
  case False
  assume a: "assign_shards beyond m spn i ts = Inl e"
  from False assign_shards_Inr [of spn beyond m i ts] obtain ts'
    where "assign_shards beyond m spn i ts = Inr ts'" by auto
  with a show ?thesis by simp
qed

lemma shards_error:
  assumes "map_must_epoch_shards beyond m tasks = Inl e"
  shows "e = DivisionByZero \<and> (num_nodes m = 0 \<or> (tasks \<noteq> [] \<and> length tasks < num_nodes m))"
proof (cases "num_nodes m = 0")
  case True
  then show ?thesis using assms by (simp add: map_must_epoch_shards_def)
next
  case False
  with assms have "assign_shards beyond m (length tasks div num_nodes m) 0 tasks = Inl e"
    by (simp add: map_must_epoch_shards_def)
  from assign_shards_Inl [OF this]
  have e: "e = DivisionByZero" and z: "length tasks div num_nodes m = 0" and ne: "tasks \<noteq> []"
    by simp_all
  from z False have "length tasks < num_nodes m" by (simp add: div_eq_0_iff)
  then show ?thesis using e ne by simp
qed

lemma div_eq_iff_interval:
  assumes "0 < q"
  shows "((i::nat) div q = k) = (k * q \<le> i \<and> i < k * q + q)"
proof
  assume "i div q = k"
  then show "k * q \<le> i \<and> i < k * q + q"
    using dividend_less_div_times [OF assms, of i] div_times_less_eq_dividend [of i q]
    by (auto simp: ac_simps)
next
  assume "k * q \<le> i \<and> i < k * q + q"
  then show "i div q = k"
    by (intro div_nat_eqI) (auto simp: ac_simps)
qed

text \<open>
  What the loop does when the number of nodes divides the number of shards and every
  node has at least \<open>shardsPerNode\<close> processors: shard \<open>i\<close> runs on the processor at
  position \<open>i mod shardsPerNode\<close> of node \<open>i div shardsPerNode\<close>, every node receives
  exactly \<open>shardsPerNode\<close> shards and no two shards share a processor.
\<close>

lemma shards_placed:
  assumes inv: "mapper_inv m ps"
    and N: "0 < num_nodes m"
    and dv: "num_nodes m dvd length tasks"
    and enough: "\<forall>k < num_nodes m. length tasks div num_nodes m \<le> length (proc_map m k)"
  defines "spn \<equiv> length tasks div num_nodes m"
  shows "\<exists>tasks'. map_must_epoch_shards beyond m tasks = Inr tasks' \<and>
           length tasks' = length tasks \<and>
           (\<forall>i < length tasks. i mod spn < length (proc_map m (i div spn)) \<and>
              target_proc (tasks' ! i) = proc_map m (i div spn) ! (i mod spn)) \<and>
           (\<forall>k < num_nodes m.
              card {i. i < length tasks \<and> address_space (target_proc (tasks' ! i)) = k} = spn) \<and>
           inj_on (\<lambda>i. target_proc (tasks' ! i)) {..< length tasks}"
proof (cases "tasks = []")
  case True
  then have "map_must_epoch_shards beyond m tasks = Inr []"
    using N by (simp add: map_must_epoch_shards_def)
  then show ?thesis using True by (simp add: spn_def)
next
  case False
  define N' where "N' = num_nodes m"
  define T where "T = length tasks"
  have total: "T = N' * spn" using dv unfolding spn_def T_def N'_def by simp
  have "T \<noteq> 0" using False by (simp add: T_def)
  then have q: "0 < spn" using total by (cases "spn = 0") simp_all
  have N'pos: "0 < N'" using N by (simp add: N'_def)
  have "N' * 1 \<le> N' * spn" using q by (intro mult_le_mono2) simp
  then have "num_nodes m \<le> length tasks" using total by (simp add: N'_def T_def)
  from shards_return [OF N this, of beyond] obtain tasks'
    where ok: "map_must_epoch_shards beyond m tasks = Inr tasks'"
      and len: "length tasks' = length tasks"
      and rd: "\<forall>i < length tasks. target_proc (tasks' ! i) =
                 read_proc beyond m (i div spn) (i mod spn)"
    unfolding spn_def by blast
  from inv have inv2: "\<And>k. distinct (proc_map m k)"
    and inv4: "\<And>k q. q \<in> set (proc_map m k) \<Longrightarrow> address_space q = k"
    unfolding mapper_inv_def by blast+
  have node: "i div spn < N'" if "i < T" for i
    using that total q by (simp add: div_less_iff_less_mult)
  have slot: "i mod spn < length (proc_map m (i div spn))" if "i < T" for i
  proof -
    from node [OF that] enough have "spn \<le> length (proc_map m (i div spn))"
      unfolding spn_def N'_def by blast
    moreover have "i mod spn < spn" using q by simp
    ultimately show ?thesis by linarith
  qed
  have proc: "target_proc (tasks' ! i) = proc_map m (i div spn) ! (i mod spn)" if "i < T" for i
    using rd [rule_format, of i] that slot [OF that] by (simp add: read_proc_def T_def)
  have addr: "address_space (target_proc (tasks' ! i)) = i div spn" if "i < T" for i
    using inv4 [of "proc_map m (i div spn) ! (i mod spn)" "i div spn"] slot [OF that] proc [OF that]
    by simp
  have cards: "card {i. i < T \<and> address_space (target_proc (tasks' ! i)) = k} = spn"
    if k: "k < N'" for k
  proof -
    have "(k + 1) * spn \<le> N' * spn" using k by (intro mult_le_mono1) simp
    then have up: "k * spn + spn \<le> T" using total by (simp add: algebra_simps)
    have "(i < T \<and> address_space (target_proc (tasks' ! i)) = k) =
          (k * spn \<le> i \<and> i < k * spn + spn)" for i
    proof (cases "i < T")
      case True
      then show ?thesis using addr [OF True] by (simp add: div_eq_iff_interval [OF q])
    next
      case False
      then show ?thesis using up by simp
    qed
    then have "{i. i < T \<and> address_space (target_proc (tasks' ! i)) = k} =
          {i. k * spn \<le> i \<and> i < k * spn + spn}"
      by (rule Collect_cong)
    also have "\<dots> = {k * spn ..< k * spn + spn}" by auto
    finally show ?thesis by simp
  qed
  have inj: "inj_on (\<lambda>i. target_proc (tasks' ! i)) {..< T}"
  proof (rule inj_onI)
    fix i j assume i: "i \<in> {..< T}" and j: "j \<in> {..< T}"
      and eq: "target_proc (tasks' ! i) = target_proc (tasks' ! j)"
    from i j have i': "i < T" and j': "j < T" by simp_all
    from eq addr [OF i'] addr [OF j'] have d: "i div spn = j div spn" by simp
    from eq proc [OF i'] proc [OF j'] d
    have "proc_map m (i div spn) ! (i mod spn) = proc_map m (i div spn) ! (j mod spn)" by simp
    with inv2 [of "i div spn"] slot [OF i'] slot [OF j'] d have r: "i mod spn = j mod spn"
      by (simp add: nth_eq_iff_index_eq)
    have "i = i div spn * spn + i mod spn" by simp
    also have "\<dots> = j div spn * spn + j mod spn" unfolding d r ..
    also have "\<dots> = j" by simp
    finally show "i = j" .
  qed
  have A: "\<forall>i < length tasks. i mod spn < length (proc_map m (i div spn)) \<and>
              target_proc (tasks' ! i) = proc_map m (i div spn) ! (i mod spn)"
    using slot proc by (simp add: T_def)
  have B: "\<forall>k < num_nodes m.
              card {i. i < length tasks \<and> address_space (target_proc (tasks' ! i)) = k} = spn"
    using cards by (simp add: T_def N'_def)
  have C: "inj_on (\<lambda>i. target_proc (tasks' ! i)) {..< length tasks}"
    using inj by (simp add: T_def)
  from ok len A B C show ?thesis by blast
qed

lemma shards_placed_example:
  "\<exists>m tasks'.
     StencilMapper (\<lambda>p. Suc (address_space p))
       [\<lparr> proc_id = 1, address_space = 0 \<rparr>, \<lparr> proc_id = 2, address_space = 0 \<rparr>,
        \<lparr> proc_id = 3, address_space = 1 \<rparr>, \<lparr> proc_id = 4, address_space = 1 \<rparr>] = Inr m \<and>
     map_must_epoch_shards beyond m
       (replicate 4 \<lparr> target_proc = \<lparr> proc_id = 0, address_space = 0 \<rparr>, regions = [] \<rparr>) =
       Inr tasks' \<and>
     map target_proc tasks' =
       [\<lparr> proc_id = 1, address_space = 0 \<rparr>, \<lparr> proc_id = 2, address_space = 0 \<rparr>,
        \<lparr> proc_id = 3, address_space = 1 \<rparr>, \<lparr> proc_id = 4, address_space = 1 \<rparr>]"
proof -
  let ?t = "\<lparr> target_proc = \<lparr> proc_id = 0, address_space = 0 \<rparr>, regions = [] \<rparr>"
  obtain m where m: "StencilMapper (\<lambda>p. Suc (address_space p))
       [\<lparr> proc_id = 1, address_space = 0 \<rparr>, \<lparr> proc_id = 2, address_space = 0 \<rparr>,
        \<lparr> proc_id = 3, address_space = 1 \<rparr>, \<lparr> proc_id = 4, address_space = 1 \<rparr>] = Inr m"
    and n: "num_nodes m = 2"
    and p: "proc_map m 0 = [\<lparr> proc_id = 1, address_space = 0 \<rparr>, \<lparr> proc_id = 2, address_space = 0 \<rparr>]"
           "proc_map m (Suc 0) = [\<lparr> proc_id = 3, address_space = 1 \<rparr>, \<lparr> proc_id = 4, address_space = 1 \<rparr>]"
    by (simp add: StencilMapper_def add_processor_def NO_MEMORY_def Let_def)
  have r: "replicate 4 ?t = [?t, ?t, ?t, ?t]" by (simp add: numeral_eq_Suc)
  have "Suc (Suc 0) div Suc (Suc 0) = Suc 0 \<and> Suc (Suc 0) mod Suc (Suc 0) = 0 \<and>
    Suc (Suc (Suc 0)) div Suc (Suc 0) = Suc 0 \<and> Suc (Suc (Suc 0)) mod Suc (Suc 0) = Suc 0"
    by code_simp
  then have d: "Suc (Suc 0) div Suc (Suc 0) = Suc 0" "Suc (Suc 0) mod Suc (Suc 0) = 0"
    "Suc (Suc (Suc 0)) div Suc (Suc 0) = Suc 0" "Suc (Suc (Suc 0)) mod Suc (Suc 0) = Suc 0"
    by blast+
  have "\<exists>tasks'. map_must_epoch_shards beyond m (replicate 4 ?t) = Inr tasks' \<and>
     map target_proc tasks' =
       [\<lparr> proc_id = 1, address_space = 0 \<rparr>, \<lparr> proc_id = 2, address_space = 0 \<rparr>,
        \<lparr> proc_id = 3, address_space = 1 \<rparr>, \<lparr> proc_id = 4, address_space = 1 \<rparr>]"
    unfolding r by (simp add: map_must_epoch_shards_def n p d read_proc_def)
  then obtain tasks'
    where a: "map_must_epoch_shards beyond m (replicate 4 ?t) = Inr tasks'"
      and b: "map target_proc tasks' =
       [\<lparr> proc_id = 1, address_space = 0 \<rparr>, \<lparr> proc_id = 2, address_space = 0 \<rparr>,
        \<lparr> proc_id = 3, address_space = 1 \<rparr>, \<lparr> proc_id = 4, address_space = 1 \<rparr>]"
    by (elim exE conjE)
  show ?thesis
    by (rule exI [of _ m], rule exI [of _ tasks'], intro conjI) (rule m, rule a, rule b)
qed

text \<open>
  Claim C7. The placement does not keep to the processors of a node. On a machine of
  one node with two processors the command line \<^verbatim>\<open>stencil 1 1 8 4\<close> is accepted and asks
  for four shards. \<open>numNodes = 1\<close> divides \<open>totalShards = 4\<close> and \<open>shardsPerNode\<close> is
  \<open>4\<close>. The placement returns without a failure: shards \<open>0\<close> and \<open>1\<close> get the two processors
  of the node, shards \<open>2\<close> and \<open>3\<close> get what lies at positions \<open>2\<close> and \<open>3\<close> after the start
  of the node's processor list, past its end. Whatever lies there, the four shards are
  not on four distinct processors of the node.
\<close>

theorem shards_past_processor_list:
  "read_and_test_input [''stencil'', ''1'', ''1'', ''8'', ''4''] 1 2 =
     Inr \<lparr> threads = 1, iterations = 1, grid_size = 8, Num_procsx = 2, Num_procsy = 2 \<rparr> \<and>
   (\<exists>m. StencilMapper (\<lambda>p. Suc (address_space p))
           [\<lparr> proc_id = 1, address_space = 0 \<rparr>, \<lparr> proc_id = 2, address_space = 0 \<rparr>] = Inr m \<and>
        num_nodes m = 1 \<and>
        proc_map m 0 = [\<lparr> proc_id = 1, address_space = 0 \<rparr>, \<lparr> proc_id = 2, address_space = 0 \<rparr>] \<and>
        num_nodes m dvd 4 \<and>
        (\<forall>beyond. \<exists>tasks'.
           map_must_epoch_shards beyond m
             (replicate 4 \<lparr> target_proc = \<lparr> proc_id = 0, address_space = 0 \<rparr>, regions = [] \<rparr>) =
             Inr tasks' \<and>
           map target_proc tasks' =
             [\<lparr> proc_id = 1, address_space = 0 \<rparr>, \<lparr> proc_id = 2, address_space = 0 \<rparr>,
              beyond 0 2, beyond 0 3] \<and>
           \<not> (distinct (map target_proc tasks') \<and>
              set (map target_proc tasks') \<subseteq> set (proc_map m 0))))"
proof -
  let ?p1 = "\<lparr> proc_id = 1, address_space = 0 \<rparr>" and ?p2 = "\<lparr> proc_id = 2, address_space = 0 \<rparr>"
  let ?t = "\<lparr> target_proc = \<lparr> proc_id = 0, address_space = 0 \<rparr>, regions = [] \<rparr>"
  have cfg: "read_and_test_input [''stencil'', ''1'', ''1'', ''8'', ''4''] 1 2 =
     Inr \<lparr> threads = 1, iterations = 1, grid_size = 8, Num_procsx = 2, Num_procsy = 2 \<rparr>"
    by code_simp
  obtain m where m: "StencilMapper (\<lambda>p. Suc (address_space p)) [?p1, ?p2] = Inr m"
    and n: "num_nodes m = 1"
    and p: "proc_map m 0 = [?p1, ?p2]"
    by (simp add: StencilMapper_def add_processor_def NO_MEMORY_def Let_def)
  have run: "\<exists>tasks'. map_must_epoch_shards beyond m (replicate 4 ?t) = Inr tasks' \<and>
           map target_proc tasks' = [?p1, ?p2, beyond 0 2, beyond 0 3] \<and>
           \<not> (distinct (map target_proc tasks') \<and>
              set (map target_proc tasks') \<subseteq> set (proc_map m 0))" for beyond
  proof -
    have r: "replicate 4 ?t = [?t, ?t, ?t, ?t]" by (simp add: numeral_eq_Suc)
    obtain tasks' where ok: "map_must_epoch_shards beyond m (replicate 4 ?t) = Inr tasks'"
      and ps': "map target_proc tasks' =
                  [?p1, ?p2, beyond 0 (Suc (Suc 0)), beyond 0 3]"
      unfolding r by (simp add: map_must_epoch_shards_def n p read_proc_def)
    have ps: "map target_proc tasks' = [?p1, ?p2, beyond 0 2, beyond 0 3]"
      using ps' by (simp add: numeral_2_eq_2)
    have nd: "\<not> (distinct [?p1, ?p2, beyond 0 2, beyond 0 3] \<and>
              set [?p1, ?p2, beyond 0 2, beyond 0 3] \<subseteq> set [?p1, ?p2])"
      by auto
    have bad: "\<not> (distinct (map target_proc tasks') \<and>
              set (map target_proc tasks') \<subseteq> set (proc_map m 0))"
      unfolding ps p by (rule nd)
    show ?thesis
      by (rule exI [of _ tasks'], intro conjI) (rule ok, rule ps, rule bad)
  qed
  have div: "num_nodes m dvd 4" by (simp add: n)
  from run have all: "\<forall>beyond. \<exists>tasks'.
           map_must_epoch_shards beyond m (replicate 4 ?t) = Inr tasks' \<and>
           map target_proc tasks' = [?p1, ?p2, beyond 0 2, beyond 0 3] \<and>
           \<not> (distinct (map target_proc tasks') \<and>
              set (map target_proc tasks') \<subseteq> set (proc_map m 0))"
    by (rule allI)
  show ?thesis
    by (intro conjI, rule cfg, rule exI [of _ m], intro conjI)
       (rule m, rule n, rule p, rule div, rule all)
qed

subsection \<open>The memories of the co-scheduled group\<close>

lemma nth_set_ranking:
  "set_ranking t idx mem tasks ! t' =
     (if t' = t \<and> t < length tasks
      then (tasks ! t)\<lparr> regions :=
             (regions (tasks ! t))[idx := (regions (tasks ! t) ! idx)\<lparr> target_ranking := [mem] \<rparr>] \<rparr>
      else tasks ! t')"
  by (cases "t < length tasks") (auto simp: set_ranking_def list_update_beyond)

lemma length_set_ranking [simp]: "length (set_ranking t idx mem tasks) = length tasks"
  by (simp add: set_ranking_def)

lemma target_proc_set_ranking [simp]:
  "target_proc (set_ranking t idx mem tasks ! t') = target_proc (tasks ! t')"
  by (simp add: nth_set_ranking)

lemma length_regions_set_ranking [simp]:
  "length (regions (set_ranking t idx mem tasks ! t')) = length (regions (tasks ! t'))"
  by (simp add: nth_set_ranking)

lemma slot_ok_set_ranking [simp]:
  "slot_ok (set_ranking t idx mem tasks) t' idx' = slot_ok tasks t' idx'"
  by (simp add: slot_ok_def)

lemma constraint_ok_set_ranking [simp]:
  "constraint_ok (set_ranking t idx mem tasks) c = constraint_ok tasks c"
  by (simp add: constraint_ok_def)

lemma region_update_nth:
  "region ((rs[idx := (rs ! idx)\<lparr> target_ranking := v \<rparr>]) ! idx') = region (rs ! idx')"
  by (cases "idx < length rs"; cases "idx' = idx") (simp_all add: list_update_beyond)

lemma slot_region_set_ranking [simp]:
  "slot_region (set_ranking t idx mem tasks) t' idx' = slot_region tasks t' idx'"
  by (simp add: slot_region_def nth_set_ranking region_update_nth)


lemma owner_slot:
  "primary c \<Longrightarrow> slot_region tasks (owner_task c) 0 =
     (if idx1 c = 0 then slot_region tasks (t1 c) (idx1 c) else slot_region tasks (t2 c) (idx2 c))"
  by (auto simp: primary_def owner_task_def)




lemma rankings_only_refl [simp]: "rankings_only tasks tasks"
  by (simp add: rankings_only_def)


lemma rankings_only_set_ranking [simp]: "rankings_only tasks (set_ranking t idx mem tasks)"
  by (simp add: rankings_only_def)

lemma rankings_only_set_ranking2 [simp]:
  "rankings_only tasks (set_ranking t idx mem (set_ranking t' idx' mem' tasks))"
  by (simp add: rankings_only_def)














end
